theory Spec2Isabelle
  imports Main "HOL-Library.Word" "HOL-Library.Multiset"
begin

section \<open>Bytes, strings and the library calls of the save decision\<close>

text \<open>
  A Go \<^verbatim>\<open>string\<close> and a Go \<^verbatim>\<open>[]byte\<close> are sequences of bytes. Both are
  modelled as \<^typ>\<open>string\<close>, a list of \<^typ>\<open>char\<close>, whose elements are the 256 byte
  values. Byte values outside printable ASCII are written \<open>CHR 0x..\<close>.
\<close>

abbreviation LF :: char where "LF \<equiv> CHR 0x0A"
abbreviation CR :: char where "CR \<equiv> CHR 0x0D"

text \<open>\<^verbatim>\<open>strings.HasPrefix\<close> / \<^verbatim>\<open>bytes.HasPrefix\<close>: \<open>s\<close> starts with \<open>p\<close>.\<close>

fun hasPrefix :: "string \<Rightarrow> string \<Rightarrow> bool" where
  "hasPrefix s [] = True"
| "hasPrefix [] (p # ps) = False"
| "hasPrefix (c # cs) (p # ps) = (c = p \<and> hasPrefix cs ps)"

text \<open>
  \<^verbatim>\<open>bytes.Contains(b, sub)\<close>: some offset of \<open>b\<close> starts with \<open>sub\<close>. The empty
  \<open>sub\<close> is contained in every \<open>b\<close>, also in the empty one.
\<close>

fun bytes_Contains :: "string \<Rightarrow> string \<Rightarrow> bool" where
  "bytes_Contains [] sub = (sub = [])"
| "bytes_Contains (c # cs) sub = (hasPrefix (c # cs) sub \<or> bytes_Contains cs sub)"

text \<open>
  \<^verbatim>\<open>func (s saveStatusArgs) Includes(search int) bool\<close> (main.go, lines 311-318):
  a linear scan that returns at the first equal element.
\<close>

fun Includes :: "int list \<Rightarrow> int \<Rightarrow> bool" where
  "Includes [] search = False"
| "Includes (status # s) search = (if status = search then True else Includes s search)"

text \<open>
  \<^verbatim>\<open>isHTML := regexp.MustCompile(`(?i)<html`)\<close> (line 108) and
  \<^verbatim>\<open>isHTML.Match(responseBody)\<close> (line 180). The pattern is five literals, the last
  four under the case-folding flag; the letters h, t, m and l fold only to their ASCII
  capitals. \<open>isHTML_here\<close> is the match of the pattern at the start of the bytes,
  \<open>isHTML_Match\<close> the unanchored search that \<^verbatim>\<open>Match\<close> performs. The body is
  decoded as UTF-8 by the regexp engine; an ASCII byte is always a rune of its own
  there, so the search is a search on bytes.
\<close>

fun isHTML_here :: "string \<Rightarrow> bool" where
  "isHTML_here (c0 # c1 # c2 # c3 # c4 # rest) =
     (c0 = CHR ''<'' \<and>
      (c1 = CHR ''h'' \<or> c1 = CHR ''H'') \<and>
      (c2 = CHR ''t'' \<or> c2 = CHR ''T'') \<and>
      (c3 = CHR ''m'' \<or> c3 = CHR ''M'') \<and>
      (c4 = CHR ''l'' \<or> c4 = CHR ''L''))"
| "isHTML_here short = False"

fun isHTML_Match :: "string \<Rightarrow> bool" where
  "isHTML_Match [] = False"
| "isHTML_Match (c # cs) = (isHTML_here (c # cs) \<or> isHTML_Match cs)"

text \<open>
  \<^verbatim>\<open>bytes.TrimSpace\<close> (line 185) cuts leading and trailing white space "as defined
  by Unicode" from UTF-8 bytes. The runes with \<^verbatim>\<open>unicode.IsSpace\<close> are
  U+0009..U+000D, U+0020, U+0085, U+00A0, U+1680, U+2000..U+200A, U+2028, U+2029,
  U+202F, U+205F and U+3000; \<open>space_encodings\<close> lists their UTF-8 encodings. Bytes
  that are not valid UTF-8 decode to U+FFFD, which is not white space, so the leading
  (trailing) white-space rune of a byte sequence is the listed encoding it starts
  (ends) with.
\<close>

definition space_encodings :: "string list" where
  "space_encodings =
     [[CHR 0x09], [CHR 0x0A], [CHR 0x0B], [CHR 0x0C], [CHR 0x0D], [CHR 0x20],
      [CHR 0xC2, CHR 0x85], [CHR 0xC2, CHR 0xA0],
      [CHR 0xE1, CHR 0x9A, CHR 0x80],
      [CHR 0xE2, CHR 0x80, CHR 0x80], [CHR 0xE2, CHR 0x80, CHR 0x81],
      [CHR 0xE2, CHR 0x80, CHR 0x82], [CHR 0xE2, CHR 0x80, CHR 0x83],
      [CHR 0xE2, CHR 0x80, CHR 0x84], [CHR 0xE2, CHR 0x80, CHR 0x85],
      [CHR 0xE2, CHR 0x80, CHR 0x86], [CHR 0xE2, CHR 0x80, CHR 0x87],
      [CHR 0xE2, CHR 0x80, CHR 0x88], [CHR 0xE2, CHR 0x80, CHR 0x89],
      [CHR 0xE2, CHR 0x80, CHR 0x8A],
      [CHR 0xE2, CHR 0x80, CHR 0xA8], [CHR 0xE2, CHR 0x80, CHR 0xA9],
      [CHR 0xE2, CHR 0x80, CHR 0xAF],
      [CHR 0xE2, CHR 0x81, CHR 0x9F],
      [CHR 0xE3, CHR 0x80, CHR 0x80]]"

text \<open>
  The width in bytes of the white-space rune that \<open>s\<close> starts with (ends with), and 0
  when it starts (ends) with none.
\<close>

definition leading_space :: "string \<Rightarrow> nat" where
  "leading_space s =
     (case find (\<lambda>e. hasPrefix s e) space_encodings of None \<Rightarrow> 0 | Some e \<Rightarrow> length e)"

definition trailing_space :: "string \<Rightarrow> nat" where
  "trailing_space s =
     (case find (\<lambda>e. hasPrefix (rev s) (rev e)) space_encodings of
        None \<Rightarrow> 0 | Some e \<Rightarrow> length e)"

lemma hasPrefix_length: "hasPrefix s p \<Longrightarrow> length p \<le> length s"
  by (induction s p rule: hasPrefix.induct) auto

lemma space_encodings_nonempty: "e \<in> set space_encodings \<Longrightarrow> e \<noteq> []"
  by (auto simp: space_encodings_def)

lemma find_Some_holds: "find P xs = Some x \<Longrightarrow> P x \<and> x \<in> set xs"
  by (induction xs) (auto split: if_splits)

lemma leading_space_le: "leading_space s \<le> length s"
  by (auto simp: leading_space_def split: option.splits
           dest!: find_Some_holds hasPrefix_length)

lemma leading_space_pos_nonempty: "0 < leading_space s \<Longrightarrow> s \<noteq> []"
  using leading_space_le [of s] by auto

lemma trailing_space_le: "trailing_space s \<le> length s"
  by (auto simp: trailing_space_def split: option.splits
           dest!: find_Some_holds hasPrefix_length)

function TrimLeftSpace :: "string \<Rightarrow> string" where
  "TrimLeftSpace s =
     (if leading_space s = 0 then s else TrimLeftSpace (drop (leading_space s) s))"
  by pat_completeness auto
termination
  by (relation "measure length") (use leading_space_pos_nonempty in auto)

function TrimRightSpace :: "string \<Rightarrow> string" where
  "TrimRightSpace s =
     (if trailing_space s = 0 then s
      else TrimRightSpace (take (length s - trailing_space s) s))"
  by pat_completeness auto
termination
proof (relation "measure length")
  show "wf (measure length)" by simp
next
  fix s :: string
  assume "trailing_space s \<noteq> 0"
  moreover have "trailing_space s \<le> length s" by (rule trailing_space_le)
  ultimately show "(take (length s - trailing_space s) s, s) \<in> measure length"
    by auto
qed

declare TrimLeftSpace.simps [simp del] TrimRightSpace.simps [simp del]

definition bytes_TrimSpace :: "string \<Rightarrow> string" where
  "bytes_TrimSpace s = TrimRightSpace (TrimLeftSpace s)"

section \<open>The save decision (main.go, lines 171-193)\<close>

text \<open>
  The decision is computed inside the task closure from the flags
  \<^verbatim>\<open>saveResponses\<close>, \<^verbatim>\<open>saveStatus\<close>, \<^verbatim>\<open>ignoreHTMLFiles\<close>,
  \<^verbatim>\<open>ignoreEmpty\<close>, \<^verbatim>\<open>match\<close> and from \<^verbatim>\<open>resp.StatusCode\<close> and the body read
  from the response. Each assignment to \<^verbatim>\<open>shouldSave\<close> is one binding below:
  \<open>shouldSave_ignore\<close> is the variable after line 186, \<open>shouldSave\<close> after line 193.
  In Go, \<^verbatim>\<open>&&\<close> binds tighter than \<^verbatim>\<open>||\<close>.
\<close>

definition shouldSave_ignore ::
  "bool \<Rightarrow> int list \<Rightarrow> int \<Rightarrow> string \<Rightarrow> bool \<Rightarrow> bool \<Rightarrow> bool" where
  "shouldSave_ignore saveResponses saveStatus StatusCode responseBody
       ignoreHTMLFiles ignoreEmpty =
     (let shouldSave = saveResponses \<or> (length saveStatus > 0 \<and> Includes saveStatus StatusCode);
          shouldSave = (if ignoreHTMLFiles
                        then shouldSave \<and> \<not> isHTML_Match responseBody else shouldSave);
          shouldSave = (if ignoreEmpty
                        then shouldSave \<and> length (bytes_TrimSpace responseBody) \<noteq> 0
                        else shouldSave)
      in shouldSave)"

definition shouldSave ::
  "bool \<Rightarrow> int list \<Rightarrow> int \<Rightarrow> string \<Rightarrow> bool \<Rightarrow> bool \<Rightarrow> string \<Rightarrow> bool" where
  "shouldSave saveResponses saveStatus StatusCode responseBody
       ignoreHTMLFiles ignoreEmpty match =
     (let shouldSave = shouldSave_ignore saveResponses saveStatus StatusCode responseBody
                         ignoreHTMLFiles ignoreEmpty;
          shouldSave = (if match \<noteq> []
                        then (if bytes_Contains responseBody match then True else shouldSave)
                        else shouldSave)
      in shouldSave)"

section \<open>The save decision against its specification\<close>

text \<open>
  The specification's words for the three notions the decision rests on: the status
  is a member of the set of save statuses; the body "looks like HTML" when
  \<^verbatim>\<open><html\<close> occurs in it, the case of letters disregarded; the trimmed body is empty
  when the body consists of white-space characters only.
\<close>

definition ascii_lower :: "char \<Rightarrow> char" where
  "ascii_lower c =
     (let n = (of_char c :: nat) in if 65 \<le> n \<and> n \<le> 90 then char_of (n + 32) else c)"

definition looksLikeHTML :: "string \<Rightarrow> bool" where
  "looksLikeHTML body = (\<exists>u v. map ascii_lower body = u @ ''<html'' @ v)"

lemma Includes_set: "Includes s x = (x \<in> set s)"
  by (induction s) auto

lemma of_char_ascii_lower:
  "(of_char (ascii_lower c) :: nat) =
     (if 65 \<le> (of_char c :: nat) \<and> (of_char c :: nat) \<le> 90 then of_char c + 32 else of_char c)"
  by (simp add: ascii_lower_def Let_def)

lemma char_eq_code: "c = d \<longleftrightarrow> (of_char c :: nat) = of_char d"
  by simp

lemma ascii_lower_lt: "ascii_lower c = CHR ''<'' \<longleftrightarrow> c = CHR ''<''"
  unfolding char_eq_code [of _ "CHR ''<''"] of_char_ascii_lower by simp

lemma ascii_lower_h: "ascii_lower c = CHR ''h'' \<longleftrightarrow> c = CHR ''h'' \<or> c = CHR ''H''"
  unfolding char_eq_code [of _ "CHR ''h''"] char_eq_code [of _ "CHR ''H''"] of_char_ascii_lower
  by auto

lemma ascii_lower_t: "ascii_lower c = CHR ''t'' \<longleftrightarrow> c = CHR ''t'' \<or> c = CHR ''T''"
  unfolding char_eq_code [of _ "CHR ''t''"] char_eq_code [of _ "CHR ''T''"] of_char_ascii_lower
  by auto

lemma ascii_lower_m: "ascii_lower c = CHR ''m'' \<longleftrightarrow> c = CHR ''m'' \<or> c = CHR ''M''"
  unfolding char_eq_code [of _ "CHR ''m''"] char_eq_code [of _ "CHR ''M''"] of_char_ascii_lower
  by auto

lemma ascii_lower_l: "ascii_lower c = CHR ''l'' \<longleftrightarrow> c = CHR ''l'' \<or> c = CHR ''L''"
  unfolding char_eq_code [of _ "CHR ''l''"] char_eq_code [of _ "CHR ''L''"] of_char_ascii_lower
  by auto

lemmas ascii_lower_html = ascii_lower_lt ascii_lower_h ascii_lower_t ascii_lower_m ascii_lower_l

lemma isHTML_here_lower: "isHTML_here s = (map ascii_lower (take 5 s) = ''<html'')"
  by (cases s rule: isHTML_here.cases) (auto simp: ascii_lower_html)

lemma isHTML_Match_split: "isHTML_Match s = (\<exists>u v. s = u @ v \<and> isHTML_here v)"
proof (induction s)
  case Nil
  then show ?case by simp
next
  case (Cons c cs)
  have "(\<exists>u v. c # cs = u @ v \<and> isHTML_here v) =
        (isHTML_here (c # cs) \<or> (\<exists>u v. cs = u @ v \<and> isHTML_here v))"
    by (auto simp: Cons_eq_append_conv)
  with Cons show ?case by simp
qed

lemma isHTML_Match_looksLikeHTML: "isHTML_Match body = looksLikeHTML body"
proof
  assume "isHTML_Match body"
  then obtain u v where uv: "body = u @ v" "isHTML_here v"
    by (auto simp: isHTML_Match_split)
  then have "map ascii_lower body =
             map ascii_lower u @ ''<html'' @ map ascii_lower (drop 5 v)"
    by (metis append_take_drop_id isHTML_here_lower map_append)
  then show "looksLikeHTML body"
    unfolding looksLikeHTML_def by blast
next
  assume "looksLikeHTML body"
  then obtain u v where uv: "map ascii_lower body = u @ ''<html'' @ v"
    unfolding looksLikeHTML_def by blast
  define p where "p = ''<html''"
  from uv have "map ascii_lower body = u @ (p @ v)"
    by (simp add: p_def)
  then obtain a r where ar: "body = a @ r" "map ascii_lower r = p @ v"
    using map_eq_append_conv [of ascii_lower body u "p @ v"] by auto
  then obtain b c where bc: "r = b @ c" "map ascii_lower b = p"
    using map_eq_append_conv [of ascii_lower r p v] by auto
  from ar bc have abc: "body = a @ b @ c" "map ascii_lower b = ''<html''"
    by (simp_all add: p_def)
  have "length (map ascii_lower b) = length ''<html''"
    using abc(2) by (rule arg_cong)
  then have "length b = 5"
    by simp
  with abc have "isHTML_here (b @ c)"
    by (simp add: isHTML_here_lower)
  with abc show "isHTML_Match body"
    unfolding isHTML_Match_split by blast
qed

definition white_space_only :: "string \<Rightarrow> bool" where
  "white_space_only body =
     (\<exists>ws. list_all (\<lambda>w. w \<in> set space_encodings) ws \<and> body = concat ws)"

lemma hasPrefix_append: "hasPrefix s p \<Longrightarrow> s = p @ drop (length p) s"
  by (induction s p rule: hasPrefix.induct) auto

lemma hasPrefix_rev_append:
  assumes "hasPrefix (rev s) (rev e)"
  shows "s = take (length s - length e) s @ e"
proof -
  from assms have "rev s = rev e @ drop (length e) (rev s)"
    using hasPrefix_append [of "rev s" "rev e"] by simp
  then have "rev (rev s) = rev (rev e @ drop (length e) (rev s))"
    by simp
  then show ?thesis
    by (simp add: rev_drop)
qed

lemma leading_space_encoding:
  "e \<in> set space_encodings \<Longrightarrow> leading_space (e @ rest) = length e"
proof -
  assume "e \<in> set space_encodings"
  then have "list_ex (\<lambda>x. e = x) space_encodings"
    by (simp add: list_ex_iff)
  moreover have "list_all (\<lambda>x. leading_space (x @ rest) = length x) space_encodings"
    by (simp add: space_encodings_def leading_space_def)
  ultimately show ?thesis
    by (auto simp: list_all_iff list_ex_iff)
qed

lemma leading_space_find:
  "leading_space s \<noteq> 0 \<Longrightarrow>
     \<exists>e \<in> set space_encodings. hasPrefix s e \<and> leading_space s = length e"
  by (auto simp: leading_space_def split: option.splits dest: find_Some_holds)

lemma trailing_space_find:
  "trailing_space s \<noteq> 0 \<Longrightarrow>
     \<exists>e \<in> set space_encodings. hasPrefix (rev s) (rev e) \<and> trailing_space s = length e"
  by (auto simp: trailing_space_def split: option.splits dest: find_Some_holds)

lemma TrimLeftSpace_concat:
  "list_all (\<lambda>w. w \<in> set space_encodings) ws \<Longrightarrow>
     TrimLeftSpace (concat ws @ rest) = TrimLeftSpace rest"
proof (induction ws)
  case Nil
  then show ?case by simp
next
  case (Cons e ws)
  then have e: "e \<in> set space_encodings" by simp
  then have "leading_space (e @ concat ws @ rest) = length e"
    by (rule leading_space_encoding)
  moreover have "length e \<noteq> 0"
    using e space_encodings_nonempty by auto
  ultimately have "TrimLeftSpace (e @ concat ws @ rest) = TrimLeftSpace (concat ws @ rest)"
    by (subst TrimLeftSpace.simps) simp
  with Cons show ?case by simp
qed

lemma TrimLeftSpace_Nil: "TrimLeftSpace [] = []"
  using leading_space_le [of "[]"] by (subst TrimLeftSpace.simps) simp

lemma TrimRightSpace_Nil: "TrimRightSpace [] = []"
  using trailing_space_le [of "[]"] by (subst TrimRightSpace.simps) simp

lemma TrimLeftSpace_decompose:
  "\<exists>ws. list_all (\<lambda>w. w \<in> set space_encodings) ws \<and> s = concat ws @ TrimLeftSpace s"
proof (induction s rule: TrimLeftSpace.induct)
  case (1 s)
  show ?case
  proof (cases "leading_space s = 0")
    case True
    then have "TrimLeftSpace s = s"
      by (subst TrimLeftSpace.simps) simp
    then have "list_all (\<lambda>w. w \<in> set space_encodings) [] \<and> s = concat [] @ TrimLeftSpace s"
      by simp
    then show ?thesis by blast
  next
    case False
    then obtain e where e: "e \<in> set space_encodings" "hasPrefix s e" "leading_space s = length e"
      using leading_space_find by blast
    from False 1 obtain ws where ws: "list_all (\<lambda>w. w \<in> set space_encodings) ws"
        "drop (leading_space s) s = concat ws @ TrimLeftSpace (drop (leading_space s) s)"
      by blast
    from False have t: "TrimLeftSpace s = TrimLeftSpace (drop (leading_space s) s)"
      by (subst TrimLeftSpace.simps) simp
    from e have "s = e @ drop (leading_space s) s"
      using hasPrefix_append by simp
    with ws t have "s = concat (e # ws) @ TrimLeftSpace s"
      by simp
    moreover from e ws have "list_all (\<lambda>w. w \<in> set space_encodings) (e # ws)"
      by simp
    ultimately show ?thesis by blast
  qed
qed

lemma TrimRightSpace_decompose:
  "\<exists>ws. list_all (\<lambda>w. w \<in> set space_encodings) ws \<and> s = TrimRightSpace s @ concat ws"
proof (induction s rule: TrimRightSpace.induct)
  case (1 s)
  show ?case
  proof (cases "trailing_space s = 0")
    case True
    then have "TrimRightSpace s = s"
      by (subst TrimRightSpace.simps) simp
    then have "list_all (\<lambda>w. w \<in> set space_encodings) [] \<and> s = TrimRightSpace s @ concat []"
      by simp
    then show ?thesis by blast
  next
    case False
    then obtain e where e: "e \<in> set space_encodings" "hasPrefix (rev s) (rev e)"
        "trailing_space s = length e"
      using trailing_space_find by blast
    let ?s' = "take (length s - trailing_space s) s"
    from False 1 obtain ws where ws: "list_all (\<lambda>w. w \<in> set space_encodings) ws"
        "?s' = TrimRightSpace ?s' @ concat ws"
      by blast
    from False have t: "TrimRightSpace s = TrimRightSpace ?s'"
      by (subst TrimRightSpace.simps) simp
    from e have "s = ?s' @ e"
      using hasPrefix_rev_append by simp
    with ws t have "s = TrimRightSpace s @ concat (ws @ [e])"
      by (metis append.assoc append_Nil2 concat.simps(1,2) concat_append)
    moreover from e ws have "list_all (\<lambda>w. w \<in> set space_encodings) (ws @ [e])"
      by simp
    ultimately show ?thesis by blast
  qed
qed

lemma leading_space_TrimLeftSpace: "leading_space (TrimLeftSpace s) = 0"
proof (induction s rule: TrimLeftSpace.induct)
  case (1 s)
  then show ?case
    by (subst TrimLeftSpace.simps) auto
qed

lemma concat_encodings_leading:
  assumes "list_all (\<lambda>w. w \<in> set space_encodings) ws" and "concat ws \<noteq> []"
  shows "leading_space (concat ws) \<noteq> 0"
proof (cases ws)
  case Nil
  with assms show ?thesis by simp
next
  case (Cons e ws')
  with assms have e: "e \<in> set space_encodings" by simp
  then have "leading_space (e @ concat ws') = length e"
    by (rule leading_space_encoding)
  moreover have "e \<noteq> []"
    using e by (rule space_encodings_nonempty)
  ultimately show ?thesis
    using Cons by simp
qed

lemma bytes_TrimSpace_empty_iff: "(bytes_TrimSpace body = []) = white_space_only body"
proof
  assume empty: "bytes_TrimSpace body = []"
  obtain wr where wr: "list_all (\<lambda>w. w \<in> set space_encodings) wr"
      "TrimLeftSpace body = TrimRightSpace (TrimLeftSpace body) @ concat wr"
    using TrimRightSpace_decompose by blast
  with empty have t: "TrimLeftSpace body = concat wr"
    by (simp add: bytes_TrimSpace_def)
  have "TrimLeftSpace body = []"
  proof (rule ccontr)
    assume "TrimLeftSpace body \<noteq> []"
    with t wr have "leading_space (TrimLeftSpace body) \<noteq> 0"
      using concat_encodings_leading [of wr] by simp
    then show False
      by (simp add: leading_space_TrimLeftSpace)
  qed
  moreover obtain wl where "list_all (\<lambda>w. w \<in> set space_encodings) wl"
      "body = concat wl @ TrimLeftSpace body"
    using TrimLeftSpace_decompose by blast
  ultimately show "white_space_only body"
    unfolding white_space_only_def by auto
next
  assume "white_space_only body"
  then obtain ws where "list_all (\<lambda>w. w \<in> set space_encodings) ws" "body = concat ws"
    unfolding white_space_only_def by blast
  then have "TrimLeftSpace body = TrimLeftSpace []"
    using TrimLeftSpace_concat [of ws "[]"] by simp
  then show "bytes_TrimSpace body = []"
    by (simp add: bytes_TrimSpace_def TrimLeftSpace_Nil TrimRightSpace_Nil)
qed

text \<open>The specification's algorithm, steps 1 to 3, over the set of save statuses.\<close>

definition spec_decision :: "bool \<Rightarrow> int set \<Rightarrow> int \<Rightarrow> string \<Rightarrow> bool \<Rightarrow> bool \<Rightarrow> bool" where
  "spec_decision saveAll saveStatusSet responseStatus responseBody ignoreHTML ignoreEmpty =
     (let decision = saveAll \<or> (saveStatusSet \<noteq> {} \<and> responseStatus \<in> saveStatusSet);
          decision = (if ignoreHTML then decision \<and> \<not> looksLikeHTML responseBody else decision);
          decision = (if ignoreEmpty then decision \<and> \<not> white_space_only responseBody
                      else decision)
      in decision)"

text \<open>
  Claim C1. The value of \<^verbatim>\<open>shouldSave\<close> after line 186 is the specification's
  decision after steps 1 to 3: save-all or a non-empty status set that has the
  response status, conjoined under \<^verbatim>\<open>--ignore-html\<close> with the body not containing
  \<^verbatim>\<open><html\<close> in any case of letters, conjoined under \<^verbatim>\<open>--ignore-empty\<close> with the
  body not being white space only. It is the final decision when no match string is
  configured. The decision is a function of these inputs alone.
\<close>

theorem save_decision_steps:
  "shouldSave_ignore saveAll saveStatus responseStatus responseBody ignoreHTML ignoreEmpty =
     spec_decision saveAll (set saveStatus) responseStatus responseBody ignoreHTML ignoreEmpty
   \<and> shouldSave saveAll saveStatus responseStatus responseBody ignoreHTML ignoreEmpty [] =
     spec_decision saveAll (set saveStatus) responseStatus responseBody ignoreHTML ignoreEmpty"
proof -
  have status: "(length saveStatus > 0 \<and> Includes saveStatus responseStatus) =
                (set saveStatus \<noteq> {} \<and> responseStatus \<in> set saveStatus)"
    by (auto simp: Includes_set)
  have trimmed: "(length (bytes_TrimSpace responseBody) \<noteq> 0) =
                 (\<not> white_space_only responseBody)"
    by (simp add: bytes_TrimSpace_empty_iff)
  have "shouldSave_ignore saveAll saveStatus responseStatus responseBody ignoreHTML ignoreEmpty =
        spec_decision saveAll (set saveStatus) responseStatus responseBody ignoreHTML ignoreEmpty"
    unfolding shouldSave_ignore_def spec_decision_def Let_def status trimmed
      isHTML_Match_looksLikeHTML by (rule refl)
  then show ?thesis
    by (simp add: shouldSave_def)
qed

text \<open>
  Scenario 3 of the specification: with save-all and \<^verbatim>\<open>--ignore-html\<close>, a body that
  contains \<^verbatim>\<open><HTML>\<close> is not saved.
\<close>

theorem save_decision_steps_witness:
  "shouldSave_ignore True [] 200 ''<HTML></HTML>'' True False = False
   \<and> spec_decision True (set []) 200 ''<HTML></HTML>'' True False = False"
  using save_decision_steps [of True "[]" 200 "''<HTML></HTML>''" True False]
  by (simp add: shouldSave_ignore_def)

lemma hasPrefix_self_append: "hasPrefix (m @ v) m"
  by (induction m) auto

lemma bytes_Contains_prefixed: "hasPrefix w m \<Longrightarrow> bytes_Contains (u @ w) m"
proof (induction u)
  case Nil
  then show ?case by (cases w; cases m) auto
next
  case (Cons c u)
  then show ?case by simp
qed

text \<open>
  Claim C2. When the match string is not empty and occurs in the response body as a
  substring of bytes, the final decision is to save, whatever the save flags, the
  status and the two ignore policies are.
\<close>

theorem match_override:
  assumes "match_string \<noteq> []" and "responseBody = u @ match_string @ v"
  shows "shouldSave saveAll saveStatus responseStatus responseBody ignoreHTML ignoreEmpty
           match_string"
proof -
  have "bytes_Contains (u @ match_string @ v) match_string"
    by (rule bytes_Contains_prefixed) (rule hasPrefix_self_append)
  with assms show ?thesis
    by (simp add: shouldSave_def)
qed

text \<open>
  Scenario 4 of the specification: the body \<^verbatim>\<open>foobar\<close>, the match string \<^verbatim>\<open>foo\<close>,
  \<^verbatim>\<open>--ignore-empty\<close> and \<^verbatim>\<open>--ignore-html\<close> set and no save flag.
\<close>

theorem match_override_witness:
  "''foo'' \<noteq> [] \<and> ''foobar'' = [] @ ''foo'' @ ''bar''
   \<and> shouldSave False [] 200 ''foobar'' True True ''foo''"
  using match_override [of "''foo''" "''foobar''" "[]" "''bar''" False "[]" 200 True True]
  by simp

section \<open>Repeatable flags and the path normaliser (main.go, lines 288-323)\<close>

text \<open>
  \<^verbatim>\<open>strings.Join(elems, sep)\<close>, used by \<^verbatim>\<open>func (h headerArgs) String()\<close>
  (lines 295-297) with the separator \<^verbatim>\<open>", "\<close>.
\<close>

fun strings_Join :: "string list \<Rightarrow> string \<Rightarrow> string" where
  "strings_Join [] sep = []"
| "strings_Join [e] sep = e"
| "strings_Join (e # es) sep = e @ sep @ strings_Join es sep"

definition headerArgs_String :: "string list \<Rightarrow> string" where
  "headerArgs_String h = strings_Join h '', ''"

text \<open>
  \<^verbatim>\<open>strings.SplitN(h, ":", 2)\<close> (line 147): the one-element slice \<^verbatim>\<open>[h]\<close> when
  \<open>h\<close> has no colon, otherwise the text before the first colon and the text after it.
\<close>

definition strings_SplitN_colon_2 :: "string \<Rightarrow> string list" where
  "strings_SplitN_colon_2 h =
     (if CHR '':'' \<in> set h
      then [takeWhile (\<lambda>c. c \<noteq> CHR '':'') h, tl (dropWhile (\<lambda>c. c \<noteq> CHR '':'') h)]
      else [h])"

text \<open>
  The parts of \<^verbatim>\<open>*url.URL\<close> that the program reads: the field \<^verbatim>\<open>Path\<close> and the
  value of the method \<^verbatim>\<open>Hostname()\<close>.
\<close>

record url =
  Path :: string
  Hostname :: string

text \<open>
  \<^verbatim>\<open>normalisePath\<close> (lines 320-323):
  \<^verbatim>\<open>regexp.MustCompile(`[^a-zA-Z0-9/._-]+`).ReplaceAllString(u.Path, "-")\<close>.
  \<open>in_class\<close> is the bracket expression without its negation. The regexp engine
  matches leftmost and \<^verbatim>\<open>+\<close> is greedy, so each match is a whole run of runes outside
  the class; every member of the class is ASCII and every byte of a longer rune (or
  of invalid UTF-8) is not, so a run of such runes is a run of such bytes. The
  replacement text has no \<^verbatim>\<open>$\<close> and is inserted as it is.
\<close>

definition in_class :: "char \<Rightarrow> bool" where
  "in_class c =
     (let n = (of_char c :: nat) in
        (97 \<le> n \<and> n \<le> 122) \<or> (65 \<le> n \<and> n \<le> 90) \<or> (48 \<le> n \<and> n \<le> 57) \<or>
        c = CHR ''/'' \<or> c = CHR ''.'' \<or> c = CHR ''_'' \<or> c = CHR ''-'')"

function ReplaceAllString :: "string \<Rightarrow> string" where
  "ReplaceAllString [] = []"
| "ReplaceAllString (c # cs) =
     (if in_class c then c # ReplaceAllString cs
      else CHR ''-'' # ReplaceAllString (dropWhile (\<lambda>c. \<not> in_class c) cs))"
  by pat_completeness auto
termination
  by (relation "measure length") (auto simp: less_Suc_eq_le length_dropWhile_le)

definition normalisePath :: "url \<Rightarrow> string" where
  "normalisePath u = ReplaceAllString (Path u)"

section \<open>The artifact key: \<^verbatim>\<open>crypto/sha1\<close> and \<^verbatim>\<open>%x\<close> (main.go, lines 202-203)\<close>

unbundle bit_operations_syntax

text \<open>
  \<^verbatim>\<open>sha1.Sum\<close> as the Go library computes it: the data followed by the padding of
  \<^verbatim>\<open>checkSum\<close> (one byte 0x80, zero bytes up to 56 modulo 64, the bit length as 8
  big-endian bytes), consumed in chunks of 64 bytes by \<^verbatim>\<open>blockGeneric\<close>, and the
  five state words written out big-endian: a value of type \<^verbatim>\<open>[20]byte\<close>.
\<close>

definition be32 :: "char \<Rightarrow> char \<Rightarrow> char \<Rightarrow> char \<Rightarrow> 32 word" where
  "be32 b0 b1 b2 b3 =
     push_bit 24 (of_char b0) OR push_bit 16 (of_char b1) OR push_bit 8 (of_char b2) OR of_char b3"

fun block_words :: "string \<Rightarrow> 32 word list" where
  "block_words (b0 # b1 # b2 # b3 # p) = be32 b0 b1 b2 b3 # block_words p"
| "block_words p = []"

definition PutUint32 :: "32 word \<Rightarrow> string" where
  "PutUint32 v =
     [char_of (unat (drop_bit 24 v AND 0xFF)), char_of (unat (drop_bit 16 v AND 0xFF)),
      char_of (unat (drop_bit 8 v AND 0xFF)), char_of (unat (v AND 0xFF))]"

definition PutUint64 :: "64 word \<Rightarrow> string" where
  "PutUint64 v = map (\<lambda>i. char_of (unat (drop_bit (56 - 8 * i) v AND 0xFF))) [0..<8]"

text \<open>The message schedule: the 16 words of the chunk extended to 80 words.\<close>

fun schedule :: "nat \<Rightarrow> 32 word list \<Rightarrow> 32 word list" where
  "schedule 0 w = w"
| "schedule (Suc n) w =
     schedule n (w @ [word_rotl 1 (w ! (length w - 3) XOR w ! (length w - 8) XOR
                                  w ! (length w - 14) XOR w ! (length w - 16))])"

type_synonym sha1_state = "32 word \<times> 32 word \<times> 32 word \<times> 32 word \<times> 32 word"

definition round_f :: "nat \<Rightarrow> 32 word \<Rightarrow> 32 word \<Rightarrow> 32 word \<Rightarrow> 32 word" where
  "round_f i b c d =
     (if i < 20 then (b AND c) OR (NOT b AND d)
      else if i < 40 then b XOR c XOR d
      else if i < 60 then ((b OR c) AND d) OR (b AND c)
      else b XOR c XOR d)"

definition round_K :: "nat \<Rightarrow> 32 word" where
  "round_K i =
     (if i < 20 then 0x5A827999 else if i < 40 then 0x6ED9EBA1
      else if i < 60 then 0x8F1BBCDC else 0xCA62C1D6)"

definition sha1_round :: "sha1_state \<Rightarrow> nat \<times> 32 word \<Rightarrow> sha1_state" where
  "sha1_round s iw =
     (case s of (a, b, c, d, e) \<Rightarrow>
        (word_rotl 5 a + round_f (fst iw) b c d + e + snd iw + round_K (fst iw),
         a, word_rotl 30 b, c, d))"

definition block :: "sha1_state \<Rightarrow> string \<Rightarrow> sha1_state" where
  "block h p =
     (let w = schedule 64 (block_words p) in
      case (h, foldl sha1_round h (zip [0..<80] w)) of
        ((h0, h1, h2, h3, h4), (a, b, c, d, e)) \<Rightarrow> (h0 + a, h1 + b, h2 + c, h3 + d, h4 + e))"

function blocks :: "sha1_state \<Rightarrow> string \<Rightarrow> sha1_state" where
  "blocks h p = (if length p \<ge> 64 then blocks (block h (take 64 p)) (drop 64 p) else h)"
  by pat_completeness auto
termination
  by (relation "measure (\<lambda>(h, p). length p)") auto

declare blocks.simps [simp del]

definition sha1_padding :: "nat \<Rightarrow> string" where
  "sha1_padding len =
     (let t = (if len mod 64 < 56 then 56 - len mod 64 else 64 + 56 - len mod 64)
      in CHR 0x80 # replicate (t - 1) (CHR 0x00) @ PutUint64 (push_bit 3 (of_nat len)))"

definition sha1_init :: sha1_state where
  "sha1_init = (0x67452301, 0xEFCDAB89, 0x98BADCFE, 0x10325476, 0xC3D2E1F0)"

definition sha1_Sum :: "string \<Rightarrow> string" where
  "sha1_Sum data =
     (case blocks sha1_init (data @ sha1_padding (length data)) of
        (h0, h1, h2, h3, h4) \<Rightarrow>
          PutUint32 h0 @ PutUint32 h1 @ PutUint32 h2 @ PutUint32 h3 @ PutUint32 h4)"

text \<open>
  \<^verbatim>\<open>fmt.Sprintf("%x", hash)\<close> for a byte array: two lower-case hexadecimal digits
  for each byte, nothing between them.
\<close>

definition hexdigit :: "nat \<Rightarrow> char" where
  "hexdigit n = ''0123456789abcdef'' ! n"

definition hex_byte :: "char \<Rightarrow> string" where
  "hex_byte c = [hexdigit (of_char c div 16), hexdigit (of_char c mod 16)]"

definition Sprintf_x :: "string \<Rightarrow> string" where
  "Sprintf_x bs = concat (map hex_byte bs)"

text \<open>The argument of \<^verbatim>\<open>sha1.Sum\<close> in line 202, and the digest.\<close>

definition hash_input :: "string \<Rightarrow> string \<Rightarrow> string \<Rightarrow> string list \<Rightarrow> string" where
  "hash_input method rawURL requestBody headers =
     method @ rawURL @ requestBody @ headerArgs_String headers"

definition artifact_key :: "string \<Rightarrow> string \<Rightarrow> string \<Rightarrow> string list \<Rightarrow> string" where
  "artifact_key method rawURL requestBody headers =
     sha1_Sum (hash_input method rawURL requestBody headers)"

section \<open>The artifact path: \<^verbatim>\<open>path.Join\<close>, \<^verbatim>\<open>path.Clean\<close>, \<^verbatim>\<open>path.Dir\<close>\<close>

text \<open>
  \<^verbatim>\<open>path.Clean\<close> reads the path at index \<^verbatim>\<open>r\<close> and writes into a buffer
  \<^verbatim>\<open>out\<close>; \<^verbatim>\<open>dotdot\<close> is the index in the buffer that a \<^verbatim>\<open>..\<close> element must not
  back up over. In the model \<open>p\<close> is the unread rest \<^verbatim>\<open>path[r:]\<close> and \<open>out\<close> the
  written part \<^verbatim>\<open>buf[:w]\<close>. \<open>backtrack\<close> is the inner loop of the \<^verbatim>\<open>..\<close> case,
  \<^verbatim>\<open>for out.w > dotdot && out.index(out.w) != '/' { out.w-- }\<close>, and returns the new
  \<^verbatim>\<open>w\<close>.
\<close>

function backtrack :: "string \<Rightarrow> nat \<Rightarrow> nat \<Rightarrow> nat" where
  "backtrack out dotdot w =
     (if w > dotdot \<and> out ! w \<noteq> CHR ''/'' then backtrack out dotdot (w - 1) else w)"
  by pat_completeness auto
termination
  by (relation "measure (\<lambda>(out, dotdot, w). w)") auto

declare backtrack.simps [simp del]

function clean_loop :: "bool \<Rightarrow> string \<Rightarrow> string \<Rightarrow> nat \<Rightarrow> string" where
  "clean_loop rooted [] out dotdot = out"
| "clean_loop rooted (c # q) out dotdot =
     (if c = CHR ''/'' then clean_loop rooted q out dotdot
      else if c = CHR ''.'' \<and> (q = [] \<or> hd q = CHR ''/'') then clean_loop rooted q out dotdot
      else if c = CHR ''.'' \<and> q \<noteq> [] \<and> hd q = CHR ''.'' \<and> (tl q = [] \<or> hd (tl q) = CHR ''/'')
      then
        (if length out > dotdot
         then clean_loop rooted (tl q) (take (backtrack out dotdot (length out - 1)) out) dotdot
         else if \<not> rooted
         then clean_loop rooted (tl q)
                ((if length out > 0 then out @ ''/'' else out) @ ''..'')
                (length ((if length out > 0 then out @ ''/'' else out) @ ''..''))
         else clean_loop rooted (tl q) out dotdot)
      else
        clean_loop rooted (dropWhile (\<lambda>x. x \<noteq> CHR ''/'') q)
          ((if rooted \<and> length out \<noteq> 1 \<or> \<not> rooted \<and> length out \<noteq> 0 then out @ ''/'' else out)
             @ c # takeWhile (\<lambda>x. x \<noteq> CHR ''/'') q)
          dotdot)"
  by pat_completeness auto
termination
  by (relation "measure (\<lambda>(rooted, p, out, dotdot). length p)")
     (auto simp: less_Suc_eq_le length_dropWhile_le)

declare clean_loop.simps [simp del]

definition path_Clean :: "string \<Rightarrow> string" where
  "path_Clean path =
     (if path = [] then ''.''
      else
        let rooted = (hd path = CHR ''/'');
            out = (if rooted then clean_loop rooted (tl path) ''/'' 1
                   else clean_loop rooted path [] 0)
        in if length out = 0 then ''.'' else out)"

text \<open>
  \<^verbatim>\<open>path.Join\<close>: the non-empty elements separated by slashes, then cleaned; the empty
  string when every element is empty.
\<close>

fun join_buf :: "string \<Rightarrow> string list \<Rightarrow> string" where
  "join_buf buf [] = buf"
| "join_buf buf (e # elem) =
     (if length buf > 0 \<or> e \<noteq> []
      then join_buf ((if length buf > 0 then buf @ ''/'' else buf) @ e) elem
      else join_buf buf elem)"

definition path_Join :: "string list \<Rightarrow> string" where
  "path_Join elem =
     (if sum_list (map length elem) = 0 then [] else path_Clean (join_buf [] elem))"

text \<open>
  \<^verbatim>\<open>path.Dir\<close>: the path up to and including its last slash, cleaned.
\<close>

definition path_Dir :: "string \<Rightarrow> string" where
  "path_Dir path = path_Clean (rev (dropWhile (\<lambda>c. c \<noteq> CHR ''/'') (rev path)))"

text \<open>The path of line 203.\<close>

definition artifact_path ::
  "string \<Rightarrow> url \<Rightarrow> string \<Rightarrow> string \<Rightarrow> string \<Rightarrow> string list \<Rightarrow> string" where
  "artifact_path prefix u method rawURL requestBody headers =
     path_Join [prefix, Hostname u, normalisePath u,
                Sprintf_x (artifact_key method rawURL requestBody headers)]"

section \<open>Requests, responses and the world outside the program\<close>

text \<open>
  The flags that the task closure reads. \<^verbatim>\<open>method\<close> is not among them: the closure
  assigns to it (line 130), so it is threaded through the tasks as state. The delay,
  the keep-alive switch and the proxy only configure the pacing and the client.
\<close>

record config =
  requestBody :: string
  saveResponses :: bool
  match :: string
  outputDir :: string
  headers :: "string list"
  saveStatus :: "int list"
  ignoreHTMLFiles :: bool
  ignoreEmpty :: bool

datatype error = Error string | InvalidMethod string

text \<open>
  \<^verbatim>\<open>http.Header\<close> is \<^verbatim>\<open>map[string][]string\<close>. A request carries the method, the
  parsed URL, the header map and the body reader (\<^verbatim>\<open>nil\<close> is \<open>None\<close>).
\<close>

type_synonym header = "string \<rightharpoonup> string list"

record request =
  Method :: string
  URL :: url
  Header :: header
  Body :: "string option"

text \<open>
  A response as the task reads it: the status code, \<^verbatim>\<open>Proto\<close>, \<^verbatim>\<open>Status\<close>, the
  header map, and what \<^verbatim>\<open>ioutil.ReadAll(resp.Body)\<close> returns.
\<close>

record response =
  StatusCode :: int
  Proto :: string
  Status :: string
  Header :: header
  Body :: "error + string"

text \<open>
  The library calls whose results the program cannot compute from its inputs: URL
  parsing, header-key canonicalisation, the network and the file system. Each is a
  function of the environment; an error result is \<open>Some\<close> or \<open>Inl\<close>.
  \<^verbatim>\<open>url.ParseRequestURI\<close> is called for its error only (line 134);
  \<^verbatim>\<open>url.Parse\<close> is what \<^verbatim>\<open>http.NewRequest\<close> parses the URL with.
\<close>

record env =
  url_ParseRequestURI :: "string \<Rightarrow> error option"
  url_Parse :: "string \<Rightarrow> error + url"
  CanonicalMIMEHeaderKey :: "string \<Rightarrow> string"
  client_Do :: "request \<Rightarrow> error + response"
  os_MkdirAll :: "string \<Rightarrow> error option"
  ioutil_WriteFile :: "string \<Rightarrow> string \<Rightarrow> error option"

text \<open>
  \<^verbatim>\<open>http.NewRequest(method, url, body)\<close> (line 139), as \<^verbatim>\<open>net/http\<close> has it: an
  empty method is replaced by \<^verbatim>\<open>GET\<close>; a method that is not a token (one or more
  of the bytes \<^verbatim>\<open>!#$%&'*+-.^_`|~\<close>, digits and ASCII letters) is an error; the URL is
  parsed with \<^verbatim>\<open>url.Parse\<close>, whose error is returned; the request has that method,
  the parsed URL, an empty header map and the given body.
\<close>

definition isTokenByte :: "char \<Rightarrow> bool" where
  "isTokenByte c =
     (let n = (of_char c :: nat) in
        (97 \<le> n \<and> n \<le> 122) \<or> (65 \<le> n \<and> n \<le> 90) \<or> (48 \<le> n \<and> n \<le> 57) \<or>
        c \<in> set ''!#$%&*+-.^_`|~'' \<or> n = 39)"

definition validMethod :: "string \<Rightarrow> bool" where
  "validMethod method = (length method > 0 \<and> list_all isTokenByte method)"

definition http_NewRequest :: "env \<Rightarrow> string \<Rightarrow> string \<Rightarrow> string option \<Rightarrow> error + request" where
  "http_NewRequest e method rawurl body =
     (let method = (if method = [] then ''GET'' else method) in
      if \<not> validMethod method then Inl (InvalidMethod method)
      else case url_Parse e rawurl of
             Inl err \<Rightarrow> Inl err
           | Inr u \<Rightarrow> Inr \<lparr>Method = method, URL = u, Header = Map.empty, Body = body\<rparr>)"

text \<open>\<^verbatim>\<open>req.Header.Set(key, value)\<close>: the canonical key is mapped to the one value.\<close>

definition Header_Set :: "env \<Rightarrow> header \<Rightarrow> string \<Rightarrow> string \<Rightarrow> header" where
  "Header_Set e h key val = h(CanonicalMIMEHeaderKey e key \<mapsto> [val])"

text \<open>The loop of lines 146-153 over the header flags.\<close>

fun add_headers :: "env \<Rightarrow> string list \<Rightarrow> request \<Rightarrow> request" where
  "add_headers e [] req = req"
| "add_headers e (h # hs) req =
     (let parts = strings_SplitN_colon_2 h in
      if length parts \<noteq> 2 then add_headers e hs req
      else add_headers e hs
             (req\<lparr>request.Header := Header_Set e (request.Header req) (parts ! 0) (parts ! 1)\<rparr>))"

section \<open>The artifact text (main.go, lines 211-239)\<close>

text \<open>
  The \<^verbatim>\<open>strings.Builder\<close> is threaded through the writes as \<open>buf\<close>; each loop is a
  recursive function over what it ranges over.
\<close>

fun write_request_headers :: "string \<Rightarrow> string list \<Rightarrow> string" where
  "write_request_headers buf [] = buf"
| "write_request_headers buf (h # hs) = write_request_headers (buf @ ''> '' @ h @ [LF]) hs"

fun write_values :: "string \<Rightarrow> string \<Rightarrow> string list \<Rightarrow> string" where
  "write_values buf k [] = buf"
| "write_values buf k (v # vs) = write_values (buf @ ''< '' @ k @ '': '' @ v @ [LF]) k vs"

text \<open>
  \<^verbatim>\<open>for k, vs := range resp.Header\<close> visits every key of the map once, in an order
  that Go leaves unspecified and that its runtime varies from one loop to the next.
  The order is an input of the model: \<open>ks\<close> is the sequence of keys as the loop
  visits them, and \<open>range_order\<close> says that it is one of the possible sequences.
\<close>

definition range_order :: "header \<Rightarrow> string list \<Rightarrow> bool" where
  "range_order hdr ks = (distinct ks \<and> set ks = dom hdr)"

fun write_response_headers :: "string \<Rightarrow> header \<Rightarrow> string list \<Rightarrow> string" where
  "write_response_headers buf hdr [] = buf"
| "write_response_headers buf hdr (k # ks) =
     write_response_headers
       (write_values buf k (case hdr k of None \<Rightarrow> [] | Some vs \<Rightarrow> vs)) hdr ks"

definition artifact_text ::
  "string \<Rightarrow> string \<Rightarrow> string list \<Rightarrow> string \<Rightarrow> string \<Rightarrow> string \<Rightarrow> header \<Rightarrow> string list
     \<Rightarrow> string \<Rightarrow> string" where
  "artifact_text method rawURL hs reqBody proto status hdr ks responseBody =
     (let buf = method @ '' '' @ rawURL @ [LF, LF];
          buf = write_request_headers buf hs;
          buf = buf @ [LF];
          buf = (if reqBody \<noteq> [] then (buf @ reqBody) @ [LF, LF] else buf);
          buf = buf @ ''< '' @ proto @ '' '' @ status @ [LF];
          buf = write_response_headers buf hdr ks;
          buf = buf @ [CR, LF];
          buf = buf @ responseBody
      in buf)"

section \<open>One task and the run (main.go, lines 114-253)\<close>

text \<open>\<^verbatim>\<open>%d\<close> of an \<^verbatim>\<open>int\<close>.\<close>

function decimal :: "nat \<Rightarrow> string" where
  "decimal n = (if n < 10 then [hexdigit n] else decimal (n div 10) @ [hexdigit (n mod 10)])"
  by pat_completeness auto
termination
  by (relation "measure id") auto

declare decimal.simps [simp del]

definition Sprintf_d :: "int \<Rightarrow> string" where
  "Sprintf_d i = (if i < 0 then CHR ''-'' # decimal (nat (- i)) else decimal (nat i))"

text \<open>
  What a task does to the world: the lines it prints to standard output, its
  diagnostics on standard error (the prefix and the error), the method, URL and body
  it calls \<^verbatim>\<open>http.NewRequest\<close> with, the requests it hands to \<^verbatim>\<open>client.Do\<close>, the
  directories it asks \<^verbatim>\<open>os.MkdirAll\<close> for, and the files that \<^verbatim>\<open>ioutil.WriteFile\<close>
  has written (path and content).
\<close>

record outcome =
  stdout :: "string list"
  stderr :: "(string \<times> error) list"
  new_requests :: "(string \<times> string \<times> string option) list"
  requests :: "request list"
  mkdirs :: "string list"
  files :: "(string \<times> string) list"

definition silent :: outcome where
  "silent = \<lparr>stdout = [], stderr = [], new_requests = [], requests = [], mkdirs = [],
              files = []\<rparr>"

text \<open>
  Lines 124-132: the body reader, and the assignment to the shared variable
  \<^verbatim>\<open>method\<close>.
\<close>

definition body_reader :: "config \<Rightarrow> string option" where
  "body_reader cfg = (if requestBody cfg \<noteq> [] then Some (requestBody cfg) else None)"

definition upgrade_method :: "config \<Rightarrow> string \<Rightarrow> string" where
  "upgrade_method cfg method =
     (if requestBody cfg \<noteq> [] then (if method = ''GET'' then ''POST'' else method) else method)"

text \<open>
  The closure of lines 120-250, run from the value \<open>method0\<close> of the shared
  variable, for the input line \<open>rawURL\<close>; \<open>ks\<close> is the order in which this task's
  loop over the response headers visits the keys. The result is the value of the
  shared variable afterwards and the task's outcome. Every \<^verbatim>\<open>return\<close> of the
  closure is one branch.
\<close>

definition task :: "env \<Rightarrow> config \<Rightarrow> string \<Rightarrow> string \<Rightarrow> string list \<Rightarrow> string \<times> outcome" where
  "task e cfg method0 rawURL ks =
     (let b = body_reader cfg;
          method = upgrade_method cfg method0
      in case url_ParseRequestURI e rawURL of
           Some err \<Rightarrow> (method, silent)
         | None \<Rightarrow>
        (let called = silent\<lparr>new_requests := [(method, rawURL, b)]\<rparr>
         in case http_NewRequest e method rawURL b of
           Inl err \<Rightarrow> (method, called\<lparr>stderr := [(''failed to create request: '', err)]\<rparr>)
         | Inr req0 \<Rightarrow>
        (let req = add_headers e (headers cfg) req0;
             sent = called\<lparr>requests := [req]\<rparr>
         in case client_Do e req of
           Inl err \<Rightarrow> (method, sent\<lparr>stderr := [(''request failed: '', err)]\<rparr>)
         | Inr resp \<Rightarrow>
        (case response.Body resp of
           Inl err \<Rightarrow> (method, sent\<lparr>stderr := [(''failed to read body: '', err)]\<rparr>)
         | Inr responseBody \<Rightarrow>
        (if \<not> shouldSave (saveResponses cfg) (saveStatus cfg) (StatusCode resp) responseBody
               (ignoreHTMLFiles cfg) (ignoreEmpty cfg) (match cfg)
         then (method, sent\<lparr>stdout := [rawURL @ '' '' @ Sprintf_d (StatusCode resp) @ [LF]]\<rparr>)
         else
        (let p = artifact_path (outputDir cfg) (URL req) method rawURL (requestBody cfg)
                   (headers cfg)
         in case os_MkdirAll e (path_Dir p) of
           Some err \<Rightarrow>
             (method, sent\<lparr>mkdirs := [path_Dir p],
                stderr := [(''failed to create dir: '', err)]\<rparr>)
         | None \<Rightarrow>
        (let buf = artifact_text method rawURL (headers cfg) (requestBody cfg)
                     (Proto resp) (Status resp) (response.Header resp) ks responseBody
         in case ioutil_WriteFile e p buf of
           Some err \<Rightarrow>
             (method, sent\<lparr>mkdirs := [path_Dir p],
                stderr := [(''failed to write file contents: '', err)]\<rparr>)
         | None \<Rightarrow>
             (method, sent\<lparr>mkdirs := [path_Dir p], files := [(p, buf)],
                stdout := [p @ '': '' @ rawURL @ '' '' @ Sprintf_d (StatusCode resp)
                             @ [LF]]\<rparr>))))))))"

text \<open>
  The loop of lines 114-251 starts one task for each input line. The model runs the
  tasks one after the other in the order of the lines; each element of the input is a
  line together with the key order of that task's loop over the response headers.
\<close>

fun run :: "env \<Rightarrow> config \<Rightarrow> string \<Rightarrow> (string \<times> string list) list \<Rightarrow> outcome list" where
  "run e cfg method [] = []"
| "run e cfg method ((rawURL, ks) # rest) =
     snd (task e cfg method rawURL ks) # run e cfg (fst (task e cfg method rawURL ks)) rest"

section \<open>The path normaliser replaces each maximal run by one hyphen\<close>

lemma ReplaceAllString_in_class:
  "\<forall>c\<in>set a. in_class c \<Longrightarrow> ReplaceAllString (a @ b) = a @ ReplaceAllString b"
  by (induction a) auto

lemma dropWhile_not_in_class_id:
  "post = [] \<or> in_class (hd post) \<Longrightarrow> dropWhile (\<lambda>c. \<not> in_class c) post = post"
  by (cases post) auto

lemma ReplaceAllString_run:
  assumes "r \<noteq> []" and "\<forall>c\<in>set r. \<not> in_class c" and "post = [] \<or> in_class (hd post)"
  shows "ReplaceAllString (r @ post) = CHR ''-'' # ReplaceAllString post"
proof -
  from assms(1) obtain c r' where r: "r = c # r'"
    by (cases r) auto
  with assms(2) have "dropWhile (\<lambda>c. \<not> in_class c) (r' @ post) =
                      dropWhile (\<lambda>c. \<not> in_class c) post"
    by (simp add: dropWhile_append2)
  with assms r show ?thesis
    by (simp add: dropWhile_not_in_class_id)
qed

lemma ReplaceAllString_maximal_run:
  assumes "r \<noteq> []" and "\<forall>c\<in>set r. \<not> in_class c" and "post = [] \<or> in_class (hd post)"
  shows "pre = [] \<or> in_class (last pre) \<Longrightarrow>
         ReplaceAllString (pre @ r @ post) =
           ReplaceAllString pre @ ''-'' @ ReplaceAllString post"
proof (induction pre rule: ReplaceAllString.induct)
  case 1
  show ?case
    using ReplaceAllString_run [OF assms] by simp
next
  case (2 c cs)
  show ?case
  proof (cases "in_class c")
    case True
    with 2 show ?thesis by (cases cs) auto
  next
    case False
    let ?d = "dropWhile (\<lambda>c. \<not> in_class c) cs"
    from False 2(3) have cs: "cs \<noteq> []" "in_class (last cs)"
      by (auto split: if_splits)
    then have ex: "\<exists>x\<in>set cs. \<not> \<not> in_class x"
      using last_in_set by blast
    then have d: "?d \<noteq> []"
      by (simp add: dropWhile_eq_Nil_conv)
    have "last ?d = last cs"
      using d by (metis last_appendR takeWhile_dropWhile_id)
    with cs d have "?d = [] \<or> in_class (last ?d)"
      by simp
    with False 2(2) have "ReplaceAllString (?d @ r @ post) =
                          ReplaceAllString ?d @ ''-'' @ ReplaceAllString post"
      by simp
    moreover have "dropWhile (\<lambda>c. \<not> in_class c) (cs @ r @ post) = ?d @ r @ post"
    proof -
      from ex obtain x where "x \<in> set cs" "\<not> \<not> in_class x" by blast
      then show ?thesis by (rule dropWhile_append1)
    qed
    ultimately show ?thesis
      using False by simp
  qed
qed

text \<open>
  Claim C6. The normaliser is a function of the URL's path alone. A path of class
  members only is returned as it is. A maximal run of bytes outside the class (not
  empty, the byte before it and the byte after it, where there is one, in the class)
  becomes one hyphen between the normalised parts before and after it; so
  \<^verbatim>\<open>/a b!!c\<close> becomes \<^verbatim>\<open>/a-b-c\<close>.
\<close>

theorem normalisePath_runs:
  "((\<forall>c\<in>set s. in_class c) \<longrightarrow> normalisePath \<lparr>Path = s, Hostname = h\<rparr> = s)
   \<and> (r \<noteq> [] \<and> (\<forall>c\<in>set r. \<not> in_class c) \<and> (pre = [] \<or> in_class (last pre))
        \<and> (post = [] \<or> in_class (hd post))
      \<longrightarrow> normalisePath \<lparr>Path = pre @ r @ post, Hostname = h\<rparr> =
            normalisePath \<lparr>Path = pre, Hostname = h\<rparr> @ ''-''
              @ normalisePath \<lparr>Path = post, Hostname = h\<rparr>)
   \<and> normalisePath \<lparr>Path = ''/a b!!c'', Hostname = h\<rparr> = ''/a-b-c''"
proof (intro conjI impI)
  assume "\<forall>c\<in>set s. in_class c"
  then show "normalisePath \<lparr>Path = s, Hostname = h\<rparr> = s"
    using ReplaceAllString_in_class [of s "[]"] by (simp add: normalisePath_def)
next
  assume "r \<noteq> [] \<and> (\<forall>c\<in>set r. \<not> in_class c) \<and> (pre = [] \<or> in_class (last pre))
          \<and> (post = [] \<or> in_class (hd post))"
  then show "normalisePath \<lparr>Path = pre @ r @ post, Hostname = h\<rparr> =
             normalisePath \<lparr>Path = pre, Hostname = h\<rparr> @ ''-''
               @ normalisePath \<lparr>Path = post, Hostname = h\<rparr>"
    using ReplaceAllString_maximal_run [of r post pre] by (simp add: normalisePath_def)
next
  show "normalisePath \<lparr>Path = ''/a b!!c'', Hostname = h\<rparr> = ''/a-b-c''"
    by (simp add: normalisePath_def in_class_def)
qed

text \<open>An all-class path, and the run \<^verbatim>\<open> %%\<close> between \<^verbatim>\<open>/a\<close> and \<^verbatim>\<open>b/\<close>.\<close>

theorem normalisePath_runs_witness:
  "list_all in_class ''/v1/index.html''
   \<and> normalisePath \<lparr>Path = ''/v1/index.html'', Hostname = ''example.com''\<rparr> = ''/v1/index.html''
   \<and> '' %%'' \<noteq> [] \<and> list_all (\<lambda>c. \<not> in_class c) '' %%''
   \<and> in_class (last ''/a'') \<and> in_class (hd ''b/'')
   \<and> normalisePath \<lparr>Path = ''/a'' @ '' %%'' @ ''b/'', Hostname = ''example.com''\<rparr> = ''/a-b/''"
  using normalisePath_runs [of "''/v1/index.html''" "''example.com''" "'' %%''" "''/a''" "''b/''"]
  by (simp add: in_class_def normalisePath_def)

section \<open>The layout of the artifact text\<close>

text \<open>
  The lines of one response header name: one line for each of its values, in the
  order of the values.
\<close>

definition header_block :: "header \<Rightarrow> string \<Rightarrow> string" where
  "header_block hdr k =
     concat (map (\<lambda>v. ''< '' @ k @ '': '' @ v @ [LF]) (case hdr k of None \<Rightarrow> [] | Some vs \<Rightarrow> vs))"

lemma write_request_headers_concat:
  "write_request_headers buf hs = buf @ concat (map (\<lambda>h. ''> '' @ h @ [LF]) hs)"
  by (induction hs arbitrary: buf) auto

lemma write_values_concat:
  "write_values buf k vs = buf @ concat (map (\<lambda>v. ''< '' @ k @ '': '' @ v @ [LF]) vs)"
  by (induction vs arbitrary: buf) auto

lemma write_response_headers_concat:
  "write_response_headers buf hdr ks = buf @ concat (map (header_block hdr) ks)"
  by (induction ks arbitrary: buf) (auto simp: write_values_concat header_block_def)

lemma artifact_text_closed_form:
  "artifact_text method rawURL hs reqBody proto status_line hdr ks responseBody =
     method @ '' '' @ rawURL @ [LF] @ [LF]
     @ concat (map (\<lambda>h. ''> '' @ h @ [LF]) hs) @ [LF]
     @ (if reqBody \<noteq> [] then reqBody @ [LF] @ [LF] else [])
     @ ''< '' @ proto @ '' '' @ status_line @ [LF]
     @ concat (map (header_block hdr) ks)
     @ [CR, LF] @ responseBody"
  by (simp add: artifact_text_def write_request_headers_concat write_response_headers_concat)

text \<open>
  Claim C4. The artifact text is, in this order: the method, a space, the raw URL and
  a line feed; an empty line; one line \<^verbatim>\<open>> header\<close> for each header flag; an empty
  line, also when there is no header flag; the request body and an empty line after
  it, only when the request body is not empty; the line \<^verbatim>\<open>< proto status\<close>; for each
  header name that the loop visits, one line \<^verbatim>\<open>< Name: value\<close> for each of its values;
  carriage return and line feed; the bytes of the response body as they are.
\<close>

theorem artifact_text_layout:
  "artifact_text method rawURL hs reqBody proto status_line hdr ks responseBody =
     method @ '' '' @ rawURL @ [LF]
     @ [LF]
     @ concat (map (\<lambda>h. ''> '' @ h @ [LF]) hs)
     @ [LF]
     @ (if reqBody \<noteq> [] then reqBody @ [LF] @ [LF] else [])
     @ ''< '' @ proto @ '' '' @ status_line @ [LF]
     @ concat (map (\<lambda>k. concat (map (\<lambda>v. ''< '' @ k @ '': '' @ v @ [LF])
                                     (case hdr k of None \<Rightarrow> [] | Some vs \<Rightarrow> vs))) ks)
     @ [CR, LF]
     @ responseBody"
  using artifact_text_closed_form [where hdr = hdr and ks = ks]
  unfolding header_block_def by simp

lemma range_orders_permuted:
  assumes "range_order hdr ks" and "range_order hdr ks'"
  shows "mset ks = mset ks'"
  using assms by (simp add: range_order_def set_eq_iff_mset_eq_distinct [symmetric])

lemma range_order_single:
  assumes "range_order hdr ks" and "range_order hdr ks'" and "card (dom hdr) \<le> 1"
  shows "ks = ks'"
proof -
  from assms have len: "length ks \<le> 1" "length ks' \<le> 1"
    by (auto simp: range_order_def distinct_card [symmetric])
  from assms have "set ks = set ks'"
    by (simp add: range_order_def)
  with len show ?thesis
    by (cases ks; cases ks') auto
qed

lemma artifact_text_orders:
  assumes "range_order hdr ks" and "range_order hdr ks'"
  shows "\<exists>pre post.
           artifact_text method rawURL hs reqBody proto status_line hdr ks responseBody =
             pre @ concat (map (header_block hdr) ks) @ post
         \<and> artifact_text method rawURL hs reqBody proto status_line hdr ks' responseBody =
             pre @ concat (map (header_block hdr) ks') @ post
         \<and> mset (map (header_block hdr) ks) = mset (map (header_block hdr) ks')"
proof -
  let ?pre = "method @ '' '' @ rawURL @ [LF] @ [LF]
     @ concat (map (\<lambda>h. ''> '' @ h @ [LF]) hs) @ [LF]
     @ (if reqBody \<noteq> [] then reqBody @ [LF] @ [LF] else [])
     @ ''< '' @ proto @ '' '' @ status_line @ [LF]"
  let ?post = "[CR, LF] @ responseBody"
  have "artifact_text method rawURL hs reqBody proto status_line hdr ks responseBody =
          ?pre @ concat (map (header_block hdr) ks) @ ?post"
    by (simp add: artifact_text_closed_form)
  moreover have "artifact_text method rawURL hs reqBody proto status_line hdr ks' responseBody =
          ?pre @ concat (map (header_block hdr) ks') @ ?post"
    by (simp add: artifact_text_closed_form)
  moreover have "mset (map (header_block hdr) ks) = mset (map (header_block hdr) ks')"
    using range_orders_permuted [OF assms] by (metis mset_map)
  ultimately show ?thesis by blast
qed

section \<open>The artifact path ends in the hexadecimal key\<close>

text \<open>
  A path element that \<^verbatim>\<open>path.Clean\<close> copies as it is: not empty, without a slash,
  not starting with a dot. \<open>with_slash\<close> is the buffer after the slash that the
  loop writes before it copies an element; \<open>buf_inv\<close> is what the loop keeps true
  of the buffer of a rooted path.
\<close>


definition component :: "string \<Rightarrow> bool" where
  "component h = (h \<noteq> [] \<and> CHR ''/'' \<notin> set h \<and> hd h \<noteq> CHR ''.'')"

definition with_slash :: "bool \<Rightarrow> string \<Rightarrow> string" where
  "with_slash rooted out =
     (if rooted \<and> length out \<noteq> 1 \<or> \<not> rooted \<and> length out \<noteq> 0 then out @ ''/'' else out)"

lemma clean_loop_component:
  assumes "component h"
  shows "clean_loop rooted h out dotdot = with_slash rooted out @ h"
proof -
  from assms obtain c q where h: "h = c # q" "c \<noteq> CHR ''/''" "c \<noteq> CHR ''.''" "CHR ''/'' \<notin> set q"
    by (cases h) (auto simp: component_def)
  then have tw: "takeWhile (\<lambda>x. x \<noteq> CHR ''/'') q = q"
    and dw: "dropWhile (\<lambda>x. x \<noteq> CHR ''/'') q = []"
    by (auto simp: takeWhile_eq_all_conv)
  show ?thesis
    unfolding h(1) by (simp add: clean_loop.simps with_slash_def tw dw h(2,3))
qed

lemma backtrack_bounds: "dotdot \<le> w \<Longrightarrow> dotdot \<le> backtrack out dotdot w \<and> backtrack out dotdot w \<le> w"
proof (induction out dotdot w rule: backtrack.induct)
  case (1 out dotdot w)
  show ?case
  proof (cases "w > dotdot \<and> out ! w \<noteq> CHR ''/''")
    case True
    then have "dotdot \<le> w - 1"
      by linarith
    with True 1(1) have "dotdot \<le> backtrack out dotdot (w - 1) \<and> backtrack out dotdot (w - 1) \<le> w - 1"
      by blast
    with True show ?thesis
      by (subst backtrack.simps, subst (2) backtrack.simps) auto
  next
    case False
    with 1(2) show ?thesis
      by (subst backtrack.simps, subst (2) backtrack.simps) auto
  qed
qed

definition buf_inv :: "bool \<Rightarrow> string \<Rightarrow> nat \<Rightarrow> bool" where
  "buf_inv rooted out dotdot = (\<not> rooted \<or> (out \<noteq> [] \<and> hd out = CHR ''/'' \<and> 1 \<le> dotdot))"

lemma clean_loop_before_component:
  assumes h: "component h"
  shows "p = [] \<or> last p = CHR ''/'' \<Longrightarrow> buf_inv rooted out dotdot \<Longrightarrow>
         \<exists>out' dotdot'. buf_inv rooted out' dotdot' \<and>
           clean_loop rooted (p @ h) out dotdot = with_slash rooted out' @ h"
proof (induction p arbitrary: out dotdot rule: length_induct)
  case (1 p)
  note IH = 1(1) [rule_format]
  show ?case
  proof (cases p)
    case Nil
    with 1(3) show ?thesis
      using clean_loop_component [OF h] by auto
  next
    case (Cons c p')
    from h have hne: "h \<noteq> []" and hhd: "hd h \<noteq> CHR ''/''"
      by (cases h; auto simp: component_def)+
    show ?thesis
    proof (cases "c = CHR ''/''")
      case True
      from Cons 1(2) have "p' = [] \<or> last p' = CHR ''/''"
        by (auto split: if_splits)
      with IH [of p' out dotdot] 1(3) Cons obtain out' dotdot' where
        "buf_inv rooted out' dotdot'" "clean_loop rooted (p' @ h) out dotdot = with_slash rooted out' @ h"
        by auto
      with True Cons show ?thesis
        by (auto simp: clean_loop.simps)
    next
      case False
      with Cons 1(2) have p': "p' \<noteq> []" "last p' = CHR ''/''"
        by (auto split: if_splits)
      then have slash: "CHR ''/'' \<in> set p'"
        using last_in_set by fastforce
      have q: "p' @ h \<noteq> []" "hd (p' @ h) = hd p'" "tl (p' @ h) = tl p' @ h"
        using p' by auto
      consider (dot) "c = CHR ''.''" "hd p' = CHR ''/''"
        | (dotdot) "c = CHR ''.''" "hd p' = CHR ''.''" "tl (p' @ h) = [] \<or> hd (tl (p' @ h)) = CHR ''/''"
        | (elem) "\<not> (c = CHR ''.'' \<and> hd p' = CHR ''/'')"
            "\<not> (c = CHR ''.'' \<and> hd p' = CHR ''.'' \<and> (tl (p' @ h) = [] \<or> hd (tl (p' @ h)) = CHR ''/''))"
        by blast
      then show ?thesis
      proof cases
        case dot
        from IH [of p' out dotdot] 1(3) Cons p' obtain out' dotdot' where
          "buf_inv rooted out' dotdot'" "clean_loop rooted (p' @ h) out dotdot = with_slash rooted out' @ h"
          by auto
        moreover have c1: "c = CHR ''.'' \<and> (p' @ h = [] \<or> hd (p' @ h) = CHR ''/'')"
          using dot q by simp
        have "clean_loop rooted (c # (p' @ h)) out dotdot = clean_loop rooted (p' @ h) out dotdot"
          by (subst clean_loop.simps(2))
             (simp only: if_not_P [OF False] if_P [OF c1])
        ultimately show ?thesis
          by (auto simp: Cons)
      next
        case dotdot
        have tlp: "tl p' \<noteq> []"
        proof
          assume "tl p' = []"
          with p' have "p' = [CHR ''/'']"
            by (cases p') auto
          with dotdot show False by simp
        qed
        with p' have last_tl: "last (tl p') = CHR ''/''"
          by (cases p') auto
        have len: "length (tl p') < length p"
          using Cons by simp
        let ?b = "take (backtrack out dotdot (length out - 1)) out"
        let ?a = "(if length out > 0 then out @ ''/'' else out) @ ''..''"
        have c1: "\<not> (c = CHR ''.'' \<and> (p' @ h = [] \<or> hd (p' @ h) = CHR ''/''))"
          using dotdot(2) q by simp
        have c2: "c = CHR ''.'' \<and> p' @ h \<noteq> [] \<and> hd (p' @ h) = CHR ''.''
                      \<and> (tl (p' @ h) = [] \<or> hd (tl (p' @ h)) = CHR ''/'')"
          using dotdot q by simp
        have "clean_loop rooted (c # (p' @ h)) out dotdot =
            (if length out > dotdot then clean_loop rooted (tl (p' @ h)) ?b dotdot
             else if \<not> rooted then clean_loop rooted (tl (p' @ h)) ?a (length ?a)
             else clean_loop rooted (tl (p' @ h)) out dotdot)"
          by (subst clean_loop.simps(2))
             (simp only: if_not_P [OF False] if_not_P [OF c1] if_P [OF c2])
        then have step: "clean_loop rooted (p @ h) out dotdot =
            (if length out > dotdot then clean_loop rooted (tl p' @ h) ?b dotdot
             else if \<not> rooted then clean_loop rooted (tl p' @ h) ?a (length ?a)
             else clean_loop rooted (tl p' @ h) out dotdot)"
          by (simp only: Cons q append_Cons)
        have inv_b: "length out > dotdot \<Longrightarrow> buf_inv rooted ?b dotdot"
        proof -
          assume gt: "length out > dotdot"
          then have "dotdot \<le> backtrack out dotdot (length out - 1)"
            using backtrack_bounds [of dotdot "length out - 1" out] by simp
          with 1(3) show ?thesis
            by (cases out) (auto simp: buf_inv_def take_Suc_conv_app_nth hd_take)
        qed
        have inv_a: "\<not> rooted \<Longrightarrow> buf_inv rooted ?a (length ?a)"
          by (simp add: buf_inv_def)
        show ?thesis
        proof (cases "length out > dotdot")
          case True
          with IH [of "tl p'" ?b dotdot] len last_tl inv_b step show ?thesis
            by auto
        next
          case ngt: False
          show ?thesis
          proof (cases rooted)
            case True
            with ngt IH [of "tl p'" out dotdot] len last_tl 1(3) step show ?thesis
              by auto
          next
            case False
            with ngt IH [of "tl p'" ?a "length ?a"] len last_tl inv_a step show ?thesis
              by auto
          qed
        qed
      next
        case elem
        let ?d = "dropWhile (\<lambda>x. x \<noteq> CHR ''/'') p'"
        let ?t = "takeWhile (\<lambda>x. x \<noteq> CHR ''/'') p'"
        let ?o = "with_slash rooted out @ c # ?t"
        have dw: "dropWhile (\<lambda>x. x \<noteq> CHR ''/'') (p' @ h) = ?d @ h"
          using slash by (auto intro: dropWhile_append1)
        have tw: "takeWhile (\<lambda>x. x \<noteq> CHR ''/'') (p' @ h) = ?t"
          using slash by (auto intro: takeWhile_append1)
        have c1: "\<not> (c = CHR ''.'' \<and> (p' @ h = [] \<or> hd (p' @ h) = CHR ''/''))"
          using elem(1) q by simp
        have c2: "\<not> (c = CHR ''.'' \<and> p' @ h \<noteq> [] \<and> hd (p' @ h) = CHR ''.''
                      \<and> (tl (p' @ h) = [] \<or> hd (tl (p' @ h)) = CHR ''/''))"
          using elem(2) q by simp
        have "clean_loop rooted (c # (p' @ h)) out dotdot =
              clean_loop rooted (dropWhile (\<lambda>x. x \<noteq> CHR ''/'') (p' @ h))
                (with_slash rooted out @ c # takeWhile (\<lambda>x. x \<noteq> CHR ''/'') (p' @ h)) dotdot"
          unfolding with_slash_def
          by (subst clean_loop.simps(2))
             (simp only: if_not_P [OF False] if_not_P [OF c1] if_not_P [OF c2])
        then have step: "clean_loop rooted (p @ h) out dotdot = clean_loop rooted (?d @ h) ?o dotdot"
          by (simp add: Cons dw tw)
        have dne: "?d \<noteq> []"
          using slash by (simp add: dropWhile_eq_Nil_conv)
        then have "last ?d = last p'"
          by (metis last_appendR takeWhile_dropWhile_id)
        with p' have dlast: "last ?d = CHR ''/''"
          by simp
        have len: "length ?d < length p"
          using Cons length_dropWhile_le [of "\<lambda>x. x \<noteq> CHR ''/''" p'] by simp
        have inv: "buf_inv rooted ?o dotdot"
          using 1(3) by (cases out) (auto simp: buf_inv_def with_slash_def)
        from IH [of ?d ?o dotdot] len dlast inv step show ?thesis
          by auto
      qed
    qed
  qed
qed

lemma with_slash_dir:
  "buf_inv rooted out dotdot \<Longrightarrow>
     with_slash rooted out = [] \<or> last (with_slash rooted out) = CHR ''/''"
  by (cases out; cases "tl out") (auto simp: buf_inv_def with_slash_def)

lemma join_buf_append: "join_buf buf (es @ fs) = join_buf (join_buf buf es) fs"
  by (induction es arbitrary: buf) auto

lemma join_buf_last:
  "h \<noteq> [] \<Longrightarrow> \<exists>b. join_buf buf (es @ [h]) = b @ h \<and> (b = [] \<or> last b = CHR ''/'')"
  by (simp add: join_buf_append)

lemma path_Clean_last_component:
  assumes h: "component h" and b: "b = [] \<or> last b = CHR ''/''"
  shows "\<exists>dir. path_Clean (b @ h) = dir @ h \<and> (dir = [] \<or> last dir = CHR ''/'')"
proof -
  from h have hne: "h \<noteq> []" and hhd: "hd h \<noteq> CHR ''/''"
    by (cases h; auto simp: component_def)+
  show ?thesis
  proof (cases "hd (b @ h) = CHR ''/''")
    case True
    with hhd have bne: "b \<noteq> []"
      by auto
    with b have tlb: "tl b = [] \<or> last (tl b) = CHR ''/''"
      by (cases b) (auto split: if_splits)
    have "buf_inv True ''/'' 1"
      by (simp add: buf_inv_def)
    with clean_loop_before_component [OF h tlb] obtain out' dotdot' where
      o: "buf_inv True out' dotdot'"
         "clean_loop True (tl b @ h) ''/'' 1 = with_slash True out' @ h"
      by blast
    from True bne hne o(2) have "path_Clean (b @ h) = with_slash True out' @ h"
      by (simp add: path_Clean_def)
    with with_slash_dir [OF o(1)] show ?thesis
      by blast
  next
    case False
    have "buf_inv False [] 0"
      by (simp add: buf_inv_def)
    with clean_loop_before_component [OF h b] obtain out' dotdot' where
      o: "buf_inv False out' dotdot'"
         "clean_loop False (b @ h) [] 0 = with_slash False out' @ h"
      by blast
    from False hne o(2) have "path_Clean (b @ h) = with_slash False out' @ h"
      by (simp add: path_Clean_def)
    with with_slash_dir [OF o(1)] show ?thesis
      by blast
  qed
qed

lemma path_Join_last_component:
  assumes "component h"
  shows "\<exists>dir. path_Join (es @ [h]) = dir @ h \<and> (dir = [] \<or> last dir = CHR ''/'')"
proof -
  from assms have hne: "h \<noteq> []"
    by (simp add: component_def)
  then obtain b where b: "join_buf [] (es @ [h]) = b @ h" "b = [] \<or> last b = CHR ''/''"
    using join_buf_last by blast
  from hne have nz: "\<not> sum_list (map length (es @ [h])) = 0"
    by simp
  have "path_Join (es @ [h]) = path_Clean (join_buf [] (es @ [h]))"
    unfolding path_Join_def by (simp only: if_not_P [OF nz])
  then have "path_Join (es @ [h]) = path_Clean (b @ h)"
    by (simp only: b(1))
  with path_Clean_last_component [OF assms b(2)] show ?thesis
    by simp
qed

lemma hexdigit_in: "n < 16 \<Longrightarrow> hexdigit n \<in> set ''0123456789abcdef''"
proof -
  assume "n < 16"
  then have "n \<in> set [0..<16]" by simp
  then show ?thesis
    unfolding hexdigit_def upt_rec [of 0] by (auto simp: upt_rec [of "Suc _"])
qed

lemma hex_byte_digits: "set (hex_byte c) \<subseteq> set ''0123456789abcdef''"
proof -
  have "(of_char c :: nat) div 16 < 16"
    using nat_of_char_less_256 [of c] by (simp add: less_mult_imp_div_less)
  moreover have "(of_char c :: nat) mod 16 < 16"
    by simp
  ultimately show ?thesis
    using hexdigit_in unfolding hex_byte_def by (metis empty_subsetI insert_subset list.simps(15) set_empty2)
qed

lemma Sprintf_x_length: "length (Sprintf_x bs) = 2 * length bs"
  by (induction bs) (auto simp: Sprintf_x_def hex_byte_def)

lemma Sprintf_x_digits: "set (Sprintf_x bs) \<subseteq> set ''0123456789abcdef''"
  using hex_byte_digits by (induction bs) (auto simp: Sprintf_x_def)

lemma sha1_Sum_length: "length (sha1_Sum d) = 20"
  by (simp add: sha1_Sum_def PutUint32_def split: prod.splits)

lemma hex_component:
  assumes "bs \<noteq> []"
  shows "component (Sprintf_x bs)"
proof -
  from assms have ne: "Sprintf_x bs \<noteq> []"
    using Sprintf_x_length [of bs] by (cases bs) auto
  then have "hd (Sprintf_x bs) \<in> set ''0123456789abcdef''"
    using Sprintf_x_digits [of bs] hd_in_set by blast
  then have "hd (Sprintf_x bs) \<noteq> CHR ''.''"
    by auto
  moreover have "CHR ''/'' \<notin> set (Sprintf_x bs)"
    using Sprintf_x_digits [of bs] by auto
  ultimately show ?thesis
    using ne by (simp add: component_def)
qed

lemma key_component: "component (Sprintf_x (artifact_key m u b hs))"
  using sha1_Sum_length [of "hash_input m u b hs"]
  by (intro hex_component) (auto simp: artifact_key_def)

lemma path_Join_example:
  assumes "component h"
  shows "path_Join [''out'', ''example.com'', ''/'', h] = ''out/example.com/'' @ h"
    and "path_Join [''out'', ''example.com'', [], h] = ''out/example.com/'' @ h"
proof -
  from assms have hne: "h \<noteq> []"
    by (simp add: component_def)
  have "clean_loop False (''out/example.com///'' @ h) [] 0 = ''out/example.com/'' @ h"
    by (simp add: clean_loop.simps clean_loop_component [OF assms] with_slash_def)
  with hne show "path_Join [''out'', ''example.com'', ''/'', h] = ''out/example.com/'' @ h"
    by (simp add: path_Join_def path_Clean_def)
  have "clean_loop False (''out/example.com//'' @ h) [] 0 = ''out/example.com/'' @ h"
    by (simp add: clean_loop.simps clean_loop_component [OF assms] with_slash_def)
  with hne show "path_Join [''out'', ''example.com'', [], h] = ''out/example.com/'' @ h"
    by (simp add: path_Join_def path_Clean_def)
qed

section \<open>Tasks and runs\<close>

lemma add_headers_fields:
  "URL (add_headers e hs req) = URL req \<and> Method (add_headers e hs req) = Method req
   \<and> request.Body (add_headers e hs req) = request.Body req"
  by (induction hs arbitrary: req) (auto simp: Let_def)

lemma upgrade_method_idem: "upgrade_method cfg (upgrade_method cfg m) = upgrade_method cfg m"
  by (simp add: upgrade_method_def)

lemma task_method: "fst (task e cfg method0 rawURL ks) = upgrade_method cfg method0"
  by (simp add: task_def Let_def split: option.splits sum.splits)

lemma task_upgraded:
  "task e cfg (upgrade_method cfg method0) rawURL ks = task e cfg method0 rawURL ks"
  by (simp add: task_def upgrade_method_idem)

lemma run_upgraded: "run e cfg (upgrade_method cfg method0) ls = run e cfg method0 ls"
  by (cases ls) (auto simp: task_upgraded)

lemma run_map: "run e cfg method0 ls = map (\<lambda>(rawURL, ks). snd (task e cfg method0 rawURL ks)) ls"
  by (induction ls arbitrary: method0) (auto simp: task_method run_upgraded)

lemma run_append: "run e cfg method0 (ls @ ls') = run e cfg method0 ls @ run e cfg method0 ls'"
  by (simp add: run_map)

lemma task_new_requests:
  "new_requests (snd (task e cfg method0 rawURL ks)) = []
   \<or> new_requests (snd (task e cfg method0 rawURL ks)) =
       [(upgrade_method cfg method0, rawURL, body_reader cfg)]"
  by (simp add: task_def silent_def Let_def split: option.splits sum.splits)

lemma task_requests:
  "requests (snd (task e cfg method0 rawURL ks)) =
     (case url_ParseRequestURI e rawURL of
        Some err \<Rightarrow> []
      | None \<Rightarrow>
          (case http_NewRequest e (upgrade_method cfg method0) rawURL (body_reader cfg) of
             Inl err \<Rightarrow> []
           | Inr req0 \<Rightarrow> [add_headers e (headers cfg) req0]))"
  by (simp add: task_def silent_def Let_def split: option.splits sum.splits)

lemma task_files:
  "files (snd (task e cfg method0 rawURL ks)) = []
   \<or> (\<exists>req resp responseBody.
         client_Do e req = Inr resp \<and> response.Body resp = Inr responseBody
       \<and> files (snd (task e cfg method0 rawURL ks)) =
           [(artifact_path (outputDir cfg) (URL req) (upgrade_method cfg method0) rawURL
               (requestBody cfg) (headers cfg),
             artifact_text (upgrade_method cfg method0) rawURL (headers cfg) (requestBody cfg)
               (Proto resp) (Status resp) (response.Header resp) ks responseBody)])"
  by (auto simp: task_def silent_def Let_def split: option.splits sum.splits)

lemma task_silent:
  "url_ParseRequestURI e rawURL = Some err \<Longrightarrow> snd (task e cfg method0 rawURL ks) = silent"
  by (simp add: task_def)

subsection \<open>An input line that is not a URL\<close>

text \<open>
  An environment, a response and a configuration for the scenarios of the
  specification: the server answers every request with status 404, an empty body and
  two header names; only \<^verbatim>\<open>http://\<close> URLs parse; the file system accepts
  everything; \<^verbatim>\<open>--save\<close> is set.
\<close>

definition example_response :: response where
  "example_response =
     \<lparr>StatusCode = 404, Proto = ''HTTP/1.1'', Status = ''404 Not Found'',
      Header = [''Server'' \<mapsto> [''nginx''], ''Set-Cookie'' \<mapsto> [''a=1'', ''b=2'']],
      Body = Inr []\<rparr>"

definition example_env :: env where
  "example_env =
     \<lparr>url_ParseRequestURI =
        (\<lambda>s. if hasPrefix s ''http://'' then None else Some (Error ''invalid URI for request'')),
      url_Parse = (\<lambda>s. Inr \<lparr>Path = ''/'', Hostname = ''example.com''\<rparr>),
      CanonicalMIMEHeaderKey = (\<lambda>k. k),
      client_Do = (\<lambda>req. Inr example_response),
      os_MkdirAll = (\<lambda>p. None),
      ioutil_WriteFile = (\<lambda>p c. None)\<rparr>"

definition example_config :: config where
  "example_config =
     \<lparr>requestBody = [], saveResponses = True, match = [], outputDir = ''out'', headers = [],
      saveStatus = [], ignoreHTMLFiles = False, ignoreEmpty = False\<rparr>"

text \<open>
  Claim C9. A task whose input line fails \<^verbatim>\<open>url.ParseRequestURI\<close> prints nothing on
  standard output and nothing on standard error, builds and sends no request, creates
  no directory and writes no file; and in a run, the outcomes of the tasks before and
  after it are those of the run without that line.
\<close>

theorem invalid_url_silent:
  assumes "url_ParseRequestURI e rawURL = Some err"
  shows "stdout (snd (task e cfg method0 rawURL ks)) = []
       \<and> stderr (snd (task e cfg method0 rawURL ks)) = []
       \<and> files (snd (task e cfg method0 rawURL ks)) = []
       \<and> mkdirs (snd (task e cfg method0 rawURL ks)) = []
       \<and> requests (snd (task e cfg method0 rawURL ks)) = []
       \<and> new_requests (snd (task e cfg method0 rawURL ks)) = []
       \<and> run e cfg method0 (before @ (rawURL, ks) # after) =
           run e cfg method0 before @ silent # run e cfg method0 after
       \<and> run e cfg method0 (before @ after) =
           run e cfg method0 before @ run e cfg method0 after"
proof -
  from assms have s: "snd (task e cfg method0 rawURL ks) = silent"
    by (rule task_silent)
  have "run e cfg method0 (before @ (rawURL, ks) # after) =
          run e cfg method0 before @ silent # run e cfg method0 after"
    by (simp add: run_map s)
  then show ?thesis
    by (simp add: s silent_def run_append)
qed

theorem invalid_url_silent_witness:
  "url_ParseRequestURI example_env ''not a url'' = Some (Error ''invalid URI for request'')
   \<and> stdout (snd (task example_env example_config ''GET'' ''not a url'' [])) = []
   \<and> stderr (snd (task example_env example_config ''GET'' ''not a url'' [])) = []
   \<and> files (snd (task example_env example_config ''GET'' ''not a url'' [])) = []"
  using invalid_url_silent [of example_env "''not a url''" "Error ''invalid URI for request''"
      example_config "''GET''" "[]"]
  by (simp add: example_env_def)

subsection \<open>The artifact key\<close>

text \<open>
  Claim C3. The artifact key is the SHA-1 digest of the method, the raw URL, the
  request body and the header flags joined with \<^verbatim>\<open>", "\<close>, in this order and with
  nothing between them: a function of these four inputs, 20 bytes long. Its \<^verbatim>\<open>%x\<close>
  rendering is 40 characters, all of them hexadecimal digits, and it is the last
  element of the artifact path, for every prefix, host name and URL path; a task
  writes no file but at such a path.
\<close>

theorem artifact_key_digest:
  "artifact_key method rawURL reqBody hs =
     sha1_Sum (method @ rawURL @ reqBody @ strings_Join hs '', '')
   \<and> length (artifact_key method rawURL reqBody hs) = 20
   \<and> length (Sprintf_x (artifact_key method rawURL reqBody hs)) = 40
   \<and> set (Sprintf_x (artifact_key method rawURL reqBody hs)) \<subseteq> set ''0123456789abcdef''
   \<and> (\<exists>dir. artifact_path prefix u method rawURL reqBody hs =
               dir @ Sprintf_x (artifact_key method rawURL reqBody hs)
            \<and> (dir = [] \<or> last dir = CHR ''/''))
   \<and> (files (snd (task e cfg method0 rawURL ks)) = []
      \<or> (\<exists>dir content.
            files (snd (task e cfg method0 rawURL ks)) =
              [(dir @ Sprintf_x (artifact_key (upgrade_method cfg method0) rawURL
                                   (requestBody cfg) (headers cfg)), content)]
          \<and> (dir = [] \<or> last dir = CHR ''/'')))"
proof -
  have key: "artifact_key method rawURL reqBody hs =
               sha1_Sum (method @ rawURL @ reqBody @ strings_Join hs '', '')"
    by (simp add: artifact_key_def hash_input_def headerArgs_String_def)
  have len: "length (artifact_key method rawURL reqBody hs) = 20"
    by (simp add: artifact_key_def sha1_Sum_length)
  then have hex: "length (Sprintf_x (artifact_key method rawURL reqBody hs)) = 40"
    by (simp add: Sprintf_x_length)
  have last: "\<exists>dir. artifact_path prefix' u' m' rawURL b' hs' =
                 dir @ Sprintf_x (artifact_key m' rawURL b' hs')
               \<and> (dir = [] \<or> last dir = CHR ''/'')" for prefix' u' m' b' hs'
    using path_Join_last_component [OF key_component,
        of "[prefix', Hostname u', normalisePath u']" m' rawURL b' hs']
    by (simp add: artifact_path_def)
  have "files (snd (task e cfg method0 rawURL ks)) = []
      \<or> (\<exists>dir content.
            files (snd (task e cfg method0 rawURL ks)) =
              [(dir @ Sprintf_x (artifact_key (upgrade_method cfg method0) rawURL
                                   (requestBody cfg) (headers cfg)), content)]
          \<and> (dir = [] \<or> last dir = CHR ''/''))"
    using task_files [of e cfg method0 rawURL ks] last by metis
  with key len hex last Sprintf_x_digits show ?thesis
    by blast
qed

subsection \<open>A task that persists its response\<close>

lemma task_persisted:
  assumes "url_ParseRequestURI e rawURL = None"
    and "http_NewRequest e (upgrade_method cfg method0) rawURL (body_reader cfg) = Inr req0"
    and "client_Do e (add_headers e (headers cfg) req0) = Inr resp"
    and "response.Body resp = Inr responseBody"
    and "shouldSave (saveResponses cfg) (saveStatus cfg) (StatusCode resp) responseBody
           (ignoreHTMLFiles cfg) (ignoreEmpty cfg) (match cfg)"
    and "p = artifact_path (outputDir cfg) (URL req0) (upgrade_method cfg method0) rawURL
               (requestBody cfg) (headers cfg)"
    and "os_MkdirAll e (path_Dir p) = None"
    and "\<forall>c. ioutil_WriteFile e p c = None"
  shows "files (snd (task e cfg method0 rawURL ks)) =
           [(p, artifact_text (upgrade_method cfg method0) rawURL (headers cfg) (requestBody cfg)
                  (Proto resp) (Status resp) (response.Header resp) ks responseBody)]"
  using assms by (simp add: task_def silent_def Let_def add_headers_fields)

lemma shouldSave_saveAll: "shouldSave True ss st body False False m"
  by (simp add: shouldSave_def shouldSave_ignore_def)

lemma task_asked:
  assumes "url_ParseRequestURI e rawURL = None"
  shows "new_requests (snd (task e cfg method0 rawURL ks)) =
           [(upgrade_method cfg method0, rawURL, body_reader cfg)]"
  using assms by (simp add: task_def silent_def Let_def split: option.splits sum.splits)

lemma task_sent:
  assumes "url_ParseRequestURI e rawURL = None"
    and "http_NewRequest e (upgrade_method cfg method0) rawURL (body_reader cfg) = Inr req0"
  shows "requests (snd (task e cfg method0 rawURL ks)) = [add_headers e (headers cfg) req0]"
  using assms by (simp add: task_requests)

lemma validMethod_examples: "validMethod ''GET''" "validMethod ''POST''" "validMethod ''PUT''"
  by (simp_all add: validMethod_def isTokenByte_def)

lemma example_NewRequest:
  assumes "m = [] \<or> validMethod m"
  shows "http_NewRequest example_env m u b =
           Inr \<lparr>Method = (if m = [] then ''GET'' else m),
                URL = \<lparr>Path = ''/'', Hostname = ''example.com''\<rparr>,
                Header = Map.empty, Body = b\<rparr>"
  using assms validMethod_examples(1)
  by (auto simp: http_NewRequest_def example_env_def)

lemma example_task_files:
  assumes "hasPrefix rawURL ''http://''"
    and "upgrade_method (example_config\<lparr>requestBody := b\<rparr>) method0 = []
         \<or> validMethod (upgrade_method (example_config\<lparr>requestBody := b\<rparr>) method0)"
  shows "files (snd (task example_env (example_config\<lparr>requestBody := b, headers := hs\<rparr>)
                       method0 rawURL ks)) =
           [(artifact_path ''out'' \<lparr>Path = ''/'', Hostname = ''example.com''\<rparr>
               (upgrade_method (example_config\<lparr>requestBody := b\<rparr>) method0) rawURL b hs,
             artifact_text (upgrade_method (example_config\<lparr>requestBody := b\<rparr>) method0)
               rawURL hs b ''HTTP/1.1'' ''404 Not Found''
               [''Server'' \<mapsto> [''nginx''], ''Set-Cookie'' \<mapsto> [''a=1'', ''b=2'']] ks [])]"
proof -
  let ?cfg = "example_config\<lparr>requestBody := b, headers := hs\<rparr>"
  let ?m = "upgrade_method ?cfg method0"
  let ?req0 = "\<lparr>Method = (if ?m = [] then ''GET'' else ?m),
                URL = \<lparr>Path = ''/'', Hostname = ''example.com''\<rparr>,
                Header = Map.empty, Body = body_reader ?cfg\<rparr>"
  have m: "?m = upgrade_method (example_config\<lparr>requestBody := b\<rparr>) method0"
    by (simp add: upgrade_method_def)
  have new: "http_NewRequest example_env ?m rawURL (body_reader ?cfg) = Inr ?req0"
    using assms(2) unfolding m [symmetric] by (rule example_NewRequest)
  have "files (snd (task example_env ?cfg method0 rawURL ks)) =
          [(artifact_path (outputDir ?cfg) (URL ?req0) (upgrade_method ?cfg method0) rawURL
              (requestBody ?cfg) (headers ?cfg),
            artifact_text (upgrade_method ?cfg method0) rawURL (headers ?cfg) (requestBody ?cfg)
              (Proto example_response) (Status example_response)
              (response.Header example_response) ks [])]"
    using assms(1) new
    by (intro task_persisted [where ?req0.0 = ?req0 and resp = example_response])
       (simp_all add: example_env_def example_response_def example_config_def
          shouldSave_saveAll)
  then show ?thesis
    by (simp add: example_response_def example_config_def upgrade_method_def)
qed

lemma example_task_requests:
  assumes "hasPrefix rawURL ''http://''"
    and "upgrade_method (example_config\<lparr>requestBody := b\<rparr>) method0 = []
         \<or> validMethod (upgrade_method (example_config\<lparr>requestBody := b\<rparr>) method0)"
  shows "map Method (requests (snd (task example_env (example_config\<lparr>requestBody := b\<rparr>)
                                     method0 rawURL ks))) =
           [if upgrade_method (example_config\<lparr>requestBody := b\<rparr>) method0 = [] then ''GET''
            else upgrade_method (example_config\<lparr>requestBody := b\<rparr>) method0]"
proof -
  let ?cfg = "example_config\<lparr>requestBody := b\<rparr>"
  have parse: "url_ParseRequestURI example_env rawURL = None"
    using assms(1) by (simp add: example_env_def)
  have new: "http_NewRequest example_env (upgrade_method ?cfg method0) rawURL (body_reader ?cfg) =
           Inr \<lparr>Method = (if upgrade_method ?cfg method0 = [] then ''GET''
                          else upgrade_method ?cfg method0),
                URL = \<lparr>Path = ''/'', Hostname = ''example.com''\<rparr>,
                Header = Map.empty, Body = body_reader ?cfg\<rparr>"
    by (rule example_NewRequest [OF assms(2)])
  from task_sent [OF parse new] show ?thesis
    by (simp add: add_headers_fields)
qed

subsection \<open>The effective method\<close>

lemma http_NewRequest_Method:
  "http_NewRequest e m u b = Inr req \<Longrightarrow> Method req = (if m = [] then ''GET'' else m)"
  by (auto simp: http_NewRequest_def Let_def split: if_splits sum.splits)

lemma task_requests_Method:
  "list_all (\<lambda>req. Method req = (if upgrade_method cfg method0 = [] then ''GET''
                                  else upgrade_method cfg method0))
     (requests (snd (task e cfg method0 rawURL ks)))"
  by (auto simp: task_requests add_headers_fields dest: http_NewRequest_Method
        split: option.splits sum.splits)

text \<open>
  Claim C8, as the code has it. The closure replaces the method \<^verbatim>\<open>GET\<close> by
  \<^verbatim>\<open>POST\<close> when a request body is configured and leaves every other method as it
  is. The task calls \<^verbatim>\<open>http.NewRequest\<close> with the resulting method, hashes it into
  the artifact key and writes it at the start of the artifact's first line. The
  request that is sent has the resulting method too, unless that method is empty:
  the empty method is sent as \<^verbatim>\<open>GET\<close>. A task that gets a response and saves it
  sends one such request and writes one such file. Every task of a run behaves as a
  task started from the value of the flag; the tasks are modelled as running one
  after the other.
\<close>

theorem method_upgrade:
  "(requestBody cfg \<noteq> [] \<and> method0 = ''GET'' \<longrightarrow> upgrade_method cfg method0 = ''POST'')
   \<and> (method0 \<noteq> ''GET'' \<longrightarrow> upgrade_method cfg method0 = method0)
   \<and> (new_requests (snd (task e cfg method0 rawURL ks)) = []
      \<or> new_requests (snd (task e cfg method0 rawURL ks)) =
          [(upgrade_method cfg method0, rawURL, body_reader cfg)])
   \<and> list_all (\<lambda>req. Method req = (if upgrade_method cfg method0 = [] then ''GET''
                                    else upgrade_method cfg method0))
        (requests (snd (task e cfg method0 rawURL ks)))
   \<and> (files (snd (task e cfg method0 rawURL ks)) = []
      \<or> (\<exists>u rest.
            files (snd (task e cfg method0 rawURL ks)) =
              [(path_Join [outputDir cfg, Hostname u, normalisePath u,
                           Sprintf_x (sha1_Sum (upgrade_method cfg method0 @ rawURL
                              @ requestBody cfg @ headerArgs_String (headers cfg)))],
                upgrade_method cfg method0 @ '' '' @ rawURL @ [LF] @ rest)]))
   \<and> (url_ParseRequestURI e rawURL = None
      \<and> http_NewRequest e (upgrade_method cfg method0) rawURL (body_reader cfg) = Inr req0
      \<and> client_Do e (add_headers e (headers cfg) req0) = Inr resp
      \<and> response.Body resp = Inr responseBody
      \<and> shouldSave (saveResponses cfg) (saveStatus cfg) (StatusCode resp) responseBody
           (ignoreHTMLFiles cfg) (ignoreEmpty cfg) (match cfg)
      \<and> os_MkdirAll e (path_Dir (artifact_path (outputDir cfg) (URL req0)
           (upgrade_method cfg method0) rawURL (requestBody cfg) (headers cfg))) = None
      \<and> (\<forall>c. ioutil_WriteFile e (artifact_path (outputDir cfg) (URL req0)
           (upgrade_method cfg method0) rawURL (requestBody cfg) (headers cfg)) c = None)
      \<longrightarrow> map Method (requests (snd (task e cfg method0 rawURL ks))) =
            [if upgrade_method cfg method0 = [] then ''GET'' else upgrade_method cfg method0]
          \<and> (\<exists>rest.
                files (snd (task e cfg method0 rawURL ks)) =
                  [(path_Join [outputDir cfg, Hostname (URL req0), normalisePath (URL req0),
                               Sprintf_x (sha1_Sum (upgrade_method cfg method0 @ rawURL
                                  @ requestBody cfg @ headerArgs_String (headers cfg)))],
                    upgrade_method cfg method0 @ '' '' @ rawURL @ [LF] @ rest)]))
   \<and> run e cfg method0 ls = map (\<lambda>(rawURL, ks). snd (task e cfg method0 rawURL ks)) ls"
proof -
  let ?m = "upgrade_method cfg method0"
  let ?p = "artifact_path (outputDir cfg) (URL req0) ?m rawURL (requestBody cfg) (headers cfg)"
  have up: "(requestBody cfg \<noteq> [] \<and> method0 = ''GET'' \<longrightarrow> ?m = ''POST'')
          \<and> (method0 \<noteq> ''GET'' \<longrightarrow> ?m = method0)"
    by (simp add: upgrade_method_def)
  have written: "files (snd (task e cfg method0 rawURL ks)) = []
      \<or> (\<exists>u rest.
            files (snd (task e cfg method0 rawURL ks)) =
              [(path_Join [outputDir cfg, Hostname u, normalisePath u,
                           Sprintf_x (sha1_Sum (?m @ rawURL
                              @ requestBody cfg @ headerArgs_String (headers cfg)))],
                ?m @ '' '' @ rawURL @ [LF] @ rest)])"
    using task_files [of e cfg method0 rawURL ks]
    unfolding artifact_path_def artifact_key_def hash_input_def artifact_text_closed_form
    by (elim disjE exE conjE) (simp_all, blast)
  have saved: "map Method (requests (snd (task e cfg method0 rawURL ks))) =
            [if ?m = [] then ''GET'' else ?m]
          \<and> (\<exists>rest.
                files (snd (task e cfg method0 rawURL ks)) =
                  [(path_Join [outputDir cfg, Hostname (URL req0), normalisePath (URL req0),
                               Sprintf_x (sha1_Sum (?m @ rawURL
                                  @ requestBody cfg @ headerArgs_String (headers cfg)))],
                    ?m @ '' '' @ rawURL @ [LF] @ rest)])"
    if h: "url_ParseRequestURI e rawURL = None
      \<and> http_NewRequest e ?m rawURL (body_reader cfg) = Inr req0
      \<and> client_Do e (add_headers e (headers cfg) req0) = Inr resp
      \<and> response.Body resp = Inr responseBody
      \<and> shouldSave (saveResponses cfg) (saveStatus cfg) (StatusCode resp) responseBody
           (ignoreHTMLFiles cfg) (ignoreEmpty cfg) (match cfg)
      \<and> os_MkdirAll e (path_Dir ?p) = None
      \<and> (\<forall>c. ioutil_WriteFile e ?p c = None)"
  proof -
    from h have "requests (snd (task e cfg method0 rawURL ks)) =
                   [add_headers e (headers cfg) req0]"
      by (intro task_sent) simp_all
    moreover from h have "Method req0 = (if ?m = [] then ''GET'' else ?m)"
      using http_NewRequest_Method [of e ?m rawURL "body_reader cfg" req0] by simp
    ultimately have sent: "map Method (requests (snd (task e cfg method0 rawURL ks))) =
                             [if ?m = [] then ''GET'' else ?m]"
      by (simp add: add_headers_fields)
    from h have "files (snd (task e cfg method0 rawURL ks)) =
           [(?p, artifact_text ?m rawURL (headers cfg) (requestBody cfg)
                  (Proto resp) (Status resp) (response.Header resp) ks responseBody)]"
      by (intro task_persisted [where ?req0.0 = req0]) simp_all
    then have "\<exists>rest. files (snd (task e cfg method0 rawURL ks)) =
                  [(path_Join [outputDir cfg, Hostname (URL req0), normalisePath (URL req0),
                               Sprintf_x (sha1_Sum (?m @ rawURL
                                  @ requestBody cfg @ headerArgs_String (headers cfg)))],
                    ?m @ '' '' @ rawURL @ [LF] @ rest)]"
      unfolding artifact_path_def artifact_key_def hash_input_def artifact_text_closed_form
      by simp
    with sent show ?thesis
      by (rule conjI)
  qed
  note asked = task_new_requests [of e cfg method0 rawURL ks]
  note sent = task_requests_Method [of cfg method0 e rawURL ks]
  note all_tasks = run_map [of e cfg method0 ls]
  show ?thesis
    apply (intro conjI)
          apply (rule up [THEN conjunct1])
         apply (rule up [THEN conjunct2])
        apply (rule asked)
       apply (rule sent)
      apply (rule written)
     apply (rule impI)
     apply (rule saved)
     apply assumption
    apply (rule all_tasks)
    done
qed

text \<open>
  The flags \<^verbatim>\<open>-b x=1\<close> with the default method: the task asks for, sends, hashes
  and writes \<^verbatim>\<open>POST\<close>, and it writes a file. With \<^verbatim>\<open>-m PUT\<close> it sends \<^verbatim>\<open>PUT\<close>.
\<close>

theorem method_upgrade_witness:
  "requestBody (example_config\<lparr>requestBody := ''x=1''\<rparr>) \<noteq> []
   \<and> upgrade_method (example_config\<lparr>requestBody := ''x=1''\<rparr>) ''GET'' = ''POST''
   \<and> new_requests (snd (task example_env (example_config\<lparr>requestBody := ''x=1''\<rparr>) ''GET''
                         ''http://example.com/'' [''Server'', ''Set-Cookie''])) =
        [(''POST'', ''http://example.com/'', Some ''x=1'')]
   \<and> map Method (requests (snd (task example_env (example_config\<lparr>requestBody := ''x=1''\<rparr>)
                                  ''GET'' ''http://example.com/'' [''Server'', ''Set-Cookie'']))) =
        [''POST'']
   \<and> (\<exists>rest. files (snd (task example_env (example_config\<lparr>requestBody := ''x=1''\<rparr>) ''GET''
                               ''http://example.com/'' [''Server'', ''Set-Cookie''])) =
         [(path_Join [''out'', ''example.com'', ''/'',
                      Sprintf_x (sha1_Sum ''POSThttp://example.com/x=1'')],
           ''POST http://example.com/'' @ [LF] @ rest)])
   \<and> ''PUT'' \<noteq> ''GET''
   \<and> upgrade_method (example_config\<lparr>requestBody := ''x=1''\<rparr>) ''PUT'' = ''PUT''
   \<and> list_all (\<lambda>req. Method req = ''PUT'')
        (requests (snd (task example_env (example_config\<lparr>requestBody := ''x=1''\<rparr>) ''PUT''
                          ''http://example.com/'' [''Server'', ''Set-Cookie''])))"
proof -
  let ?cfg = "example_config\<lparr>requestBody := ''x=1''\<rparr>"
  let ?u = "''http://example.com/''"
  let ?ks = "[''Server'', ''Set-Cookie'']"
  let ?req0 = "\<lparr>Method = ''POST'', URL = \<lparr>Path = ''/'', Hostname = ''example.com''\<rparr>,
                Header = Map.empty, Body = Some ''x=1''\<rparr>"
  have cfg: "requestBody ?cfg = ''x=1''" "headers ?cfg = []" "outputDir ?cfg = ''out''"
    "saveResponses ?cfg" "\<not> ignoreHTMLFiles ?cfg" "\<not> ignoreEmpty ?cfg"
    "body_reader ?cfg = Some ''x=1''"
    by (simp_all add: example_config_def body_reader_def)
  note get = method_upgrade [of ?cfg "''GET''" example_env ?u ?ks ?req0 example_response "[]" "[]"]
  note put = method_upgrade [of ?cfg "''PUT''" example_env ?u ?ks ?req0 example_response "[]" "[]"]
  have up: "upgrade_method ?cfg ''GET'' = ''POST''"
    using get cfg(1) by simp
  have new: "http_NewRequest example_env ''POST'' ?u (Some ''x=1'') = Inr ?req0"
    using example_NewRequest [of "''POST''" ?u "Some ''x=1''"] validMethod_examples(2) by simp
  have hyps: "url_ParseRequestURI example_env ?u = None
      \<and> http_NewRequest example_env (upgrade_method ?cfg ''GET'') ?u (body_reader ?cfg) = Inr ?req0
      \<and> client_Do example_env (add_headers example_env (headers ?cfg) ?req0) = Inr example_response
      \<and> response.Body example_response = Inr []
      \<and> shouldSave (saveResponses ?cfg) (saveStatus ?cfg) (StatusCode example_response) []
           (ignoreHTMLFiles ?cfg) (ignoreEmpty ?cfg) (match ?cfg)
      \<and> os_MkdirAll example_env (path_Dir (artifact_path (outputDir ?cfg) (URL ?req0)
           (upgrade_method ?cfg ''GET'') ?u (requestBody ?cfg) (headers ?cfg))) = None
      \<and> (\<forall>c. ioutil_WriteFile example_env (artifact_path (outputDir ?cfg) (URL ?req0)
           (upgrade_method ?cfg ''GET'') ?u (requestBody ?cfg) (headers ?cfg)) c = None)"
    unfolding up cfg(7) new
    by (simp add: example_env_def example_response_def example_config_def shouldSave_saveAll)
  from get hyps have saved:
    "map Method (requests (snd (task example_env ?cfg ''GET'' ?u ?ks))) =
            [if upgrade_method ?cfg ''GET'' = [] then ''GET'' else upgrade_method ?cfg ''GET'']
          \<and> (\<exists>rest.
                files (snd (task example_env ?cfg ''GET'' ?u ?ks)) =
                  [(path_Join [outputDir ?cfg, Hostname (URL ?req0), normalisePath (URL ?req0),
                               Sprintf_x (sha1_Sum (upgrade_method ?cfg ''GET'' @ ?u
                                  @ requestBody ?cfg @ headerArgs_String (headers ?cfg)))],
                    upgrade_method ?cfg ''GET'' @ '' '' @ ?u @ [LF] @ rest)])"
    by blast
  have np: "normalisePath \<lparr>Path = ''/'', Hostname = ''example.com''\<rparr> = ''/''"
    by (simp add: normalisePath_def in_class_def)
  from saved have sent: "map Method (requests (snd (task example_env ?cfg ''GET'' ?u ?ks))) = [''POST'']"
    and wrote: "\<exists>rest. files (snd (task example_env ?cfg ''GET'' ?u ?ks)) =
         [(path_Join [''out'', ''example.com'', ''/'',
                      Sprintf_x (sha1_Sum ''POSThttp://example.com/x=1'')],
           ''POST http://example.com/'' @ [LF] @ rest)]"
    unfolding up cfg(1-3) by (simp_all add: np headerArgs_String_def)
  have asked: "new_requests (snd (task example_env ?cfg ''GET'' ?u ?ks)) =
        [(''POST'', ?u, Some ''x=1'')]"
    using task_asked [of example_env ?u ?cfg "''GET''" ?ks] hyps by (simp add: up cfg(7))
  have put_up: "upgrade_method ?cfg ''PUT'' = ''PUT''"
    using put by simp
  from put have "list_all (\<lambda>req. Method req = ''PUT'')
        (requests (snd (task example_env ?cfg ''PUT'' ?u ?ks)))"
    unfolding put_up by simp
  with cfg(1) up asked sent wrote put_up show ?thesis
    by simp
qed

text \<open>
  The claim as stated fails for the empty method: with \<^verbatim>\<open>-m ""\<close> and a request body
  the method is not \<^verbatim>\<open>GET\<close>, the task calls \<^verbatim>\<open>http.NewRequest\<close> with the empty
  method, and the request that is sent has the method \<^verbatim>\<open>GET\<close>.
\<close>

theorem empty_method_counterexample:
  "[] \<noteq> ''GET''
   \<and> requestBody (example_config\<lparr>requestBody := ''x=1''\<rparr>) \<noteq> []
   \<and> upgrade_method (example_config\<lparr>requestBody := ''x=1''\<rparr>) [] = []
   \<and> map Method (requests (snd (task example_env (example_config\<lparr>requestBody := ''x=1''\<rparr>) []
                                  ''http://example.com/'' [''Server'', ''Set-Cookie'']))) =
        [''GET'']
   \<and> map Method (requests (snd (task example_env (example_config\<lparr>requestBody := ''x=1''\<rparr>) []
                                  ''http://example.com/'' [''Server'', ''Set-Cookie''])))
        \<noteq> [[]]"
proof -
  have up: "upgrade_method (example_config\<lparr>requestBody := ''x=1''\<rparr>) [] = []"
    by (simp add: upgrade_method_def example_config_def)
  have url: "hasPrefix ''http://example.com/'' ''http://''"
    by simp
  have "map Method (requests (snd (task example_env (example_config\<lparr>requestBody := ''x=1''\<rparr>) []
                                  ''http://example.com/'' [''Server'', ''Set-Cookie'']))) =
        [''GET'']"
    using example_task_requests [OF url, of "''x=1''" "[]" "[''Server'', ''Set-Cookie'']"] up
    by simp
  with up show ?thesis
    by (simp add: example_config_def)
qed

subsection \<open>Header flags without a colon\<close>

lemma add_headers_append:
  "add_headers e (hs1 @ hs2) req = add_headers e hs2 (add_headers e hs1 req)"
  by (induction hs1 arbitrary: req) (auto simp: Let_def)

lemma add_headers_no_colon:
  "CHR '':'' \<notin> set h \<Longrightarrow> add_headers e (h # hs) req = add_headers e hs req"
  by (simp add: strings_SplitN_colon_2_def)

lemma strings_Join_Cons:
  "strings_Join (h # hs) sep = h @ (if hs = [] then [] else sep @ strings_Join hs sep)"
  by (cases hs) auto

lemma strings_Join_middle:
  "strings_Join (hs1 @ h # hs2) sep =
     (if hs1 = [] then [] else strings_Join hs1 sep @ sep) @ h
     @ (if hs2 = [] then [] else sep @ strings_Join hs2 sep)"
proof (induction hs1)
  case Nil
  show ?case by (simp add: strings_Join_Cons)
next
  case (Cons a hs1)
  then show ?case by (cases hs1) (auto simp: strings_Join_Cons)
qed

text \<open>
  Claim C10. A header flag without a colon is skipped by the loop that sets the
  request's headers: the request that is sent is the one that would be sent without
  the flag. The same flag is an element of the joined header string in the hash input
  of the artifact key, and the artifact text has the line \<^verbatim>\<open>> flag\<close> for it; a file
  that the task writes has that key in its path and that text as its content. When
  the URL parses, the request is built and answered, the response is to be saved and
  the directory and the file can be written, the task sends that one request and
  writes that one file.
\<close>

theorem header_without_colon:
  assumes "CHR '':'' \<notin> set h"
  shows "add_headers e (hs1 @ h # hs2) req = add_headers e (hs1 @ hs2) req
       \<and> requests (snd (task e (cfg\<lparr>headers := hs1 @ h # hs2\<rparr>) method0 rawURL ks)) =
           requests (snd (task e (cfg\<lparr>headers := hs1 @ hs2\<rparr>) method0 rawURL ks))
       \<and> hash_input m rawURL b (hs1 @ h # hs2) =
           m @ rawURL @ b @ (if hs1 = [] then [] else headerArgs_String hs1 @ '', '') @ h
             @ (if hs2 = [] then [] else '', '' @ headerArgs_String hs2)
       \<and> (\<exists>pre post. artifact_text m rawURL (hs1 @ h # hs2) b proto status_line hdr ks body =
                        pre @ [LF] @ ''> '' @ h @ [LF] @ post)
       \<and> (files (snd (task e (cfg\<lparr>headers := hs1 @ h # hs2\<rparr>) method0 rawURL ks)) = []
          \<or> (\<exists>u (resp :: response) responseBody.
                files (snd (task e (cfg\<lparr>headers := hs1 @ h # hs2\<rparr>) method0 rawURL ks)) =
                  [(path_Join [outputDir cfg, Hostname u, normalisePath u,
                      Sprintf_x (sha1_Sum (hash_input (upgrade_method cfg method0) rawURL
                                             (requestBody cfg) (hs1 @ h # hs2)))],
                    artifact_text (upgrade_method cfg method0) rawURL (hs1 @ h # hs2)
                      (requestBody cfg) (Proto resp) (Status resp) (response.Header resp) ks
                      responseBody)]))
       \<and> (url_ParseRequestURI e rawURL = None
          \<and> http_NewRequest e (upgrade_method cfg method0) rawURL (body_reader cfg) = Inr req0
          \<and> client_Do e (add_headers e (hs1 @ hs2) req0) = Inr resp0
          \<and> response.Body resp0 = Inr responseBody0
          \<and> shouldSave (saveResponses cfg) (saveStatus cfg) (StatusCode resp0) responseBody0
               (ignoreHTMLFiles cfg) (ignoreEmpty cfg) (match cfg)
          \<and> os_MkdirAll e (path_Dir (artifact_path (outputDir cfg) (URL req0)
               (upgrade_method cfg method0) rawURL (requestBody cfg) (hs1 @ h # hs2))) = None
          \<and> (\<forall>c. ioutil_WriteFile e (artifact_path (outputDir cfg) (URL req0)
               (upgrade_method cfg method0) rawURL (requestBody cfg) (hs1 @ h # hs2)) c = None)
          \<longrightarrow> requests (snd (task e (cfg\<lparr>headers := hs1 @ h # hs2\<rparr>) method0 rawURL ks)) =
                [add_headers e (hs1 @ hs2) req0]
              \<and> files (snd (task e (cfg\<lparr>headers := hs1 @ h # hs2\<rparr>) method0 rawURL ks)) =
                  [(path_Join [outputDir cfg, Hostname (URL req0), normalisePath (URL req0),
                      Sprintf_x (sha1_Sum (hash_input (upgrade_method cfg method0) rawURL
                                             (requestBody cfg) (hs1 @ h # hs2)))],
                    artifact_text (upgrade_method cfg method0) rawURL (hs1 @ h # hs2)
                      (requestBody cfg) (Proto resp0) (Status resp0) (response.Header resp0) ks
                      responseBody0)])"
proof -
  have skip: "add_headers e (hs1 @ h # hs2) r = add_headers e (hs1 @ hs2) r" for r
    using add_headers_no_colon [OF assms] by (simp add: add_headers_append del: add_headers.simps)
  have sent: "requests (snd (task e (cfg\<lparr>headers := hs1 @ h # hs2\<rparr>) method0 rawURL ks)) =
              requests (snd (task e (cfg\<lparr>headers := hs1 @ hs2\<rparr>) method0 rawURL ks))"
    by (simp add: task_requests skip upgrade_method_def body_reader_def
          cong: option.case_cong sum.case_cong)
  have hashed: "hash_input m rawURL b (hs1 @ h # hs2) =
           m @ rawURL @ b @ (if hs1 = [] then [] else headerArgs_String hs1 @ '', '') @ h
             @ (if hs2 = [] then [] else '', '' @ headerArgs_String hs2)"
    by (simp add: hash_input_def headerArgs_String_def strings_Join_middle)
  have line: "\<exists>pre post. artifact_text m rawURL (hs1 @ h # hs2) b proto status_line hdr ks body =
                        pre @ [LF] @ ''> '' @ h @ [LF] @ post"
  proof (cases hs1 rule: rev_cases)
    case Nil
    then have "artifact_text m rawURL (hs1 @ h # hs2) b proto status_line hdr ks body =
          (m @ '' '' @ rawURL @ [LF]) @ [LF] @ ''> '' @ h @ [LF]
            @ (concat (map (\<lambda>h. ''> '' @ h @ [LF]) hs2) @ [LF]
               @ (if b \<noteq> [] then b @ [LF] @ [LF] else [])
               @ ''< '' @ proto @ '' '' @ status_line @ [LF]
               @ concat (map (header_block hdr) ks) @ [CR, LF] @ body)"
      by (simp add: artifact_text_closed_form)
    then show ?thesis
      by (intro exI)
  next
    case (snoc xs x)
    then have "artifact_text m rawURL (hs1 @ h # hs2) b proto status_line hdr ks body =
          (m @ '' '' @ rawURL @ [LF] @ [LF] @ concat (map (\<lambda>h. ''> '' @ h @ [LF]) xs)
             @ ''> '' @ x) @ [LF] @ ''> '' @ h @ [LF]
            @ (concat (map (\<lambda>h. ''> '' @ h @ [LF]) hs2) @ [LF]
               @ (if b \<noteq> [] then b @ [LF] @ [LF] else [])
               @ ''< '' @ proto @ '' '' @ status_line @ [LF]
               @ concat (map (header_block hdr) ks) @ [CR, LF] @ body)"
      by (simp add: artifact_text_closed_form)
    then show ?thesis
      by (intro exI)
  qed
  have written: "files (snd (task e (cfg\<lparr>headers := hs1 @ h # hs2\<rparr>) method0 rawURL ks)) = []
          \<or> (\<exists>u (resp :: response) responseBody.
                files (snd (task e (cfg\<lparr>headers := hs1 @ h # hs2\<rparr>) method0 rawURL ks)) =
                  [(path_Join [outputDir cfg, Hostname u, normalisePath u,
                      Sprintf_x (sha1_Sum (hash_input (upgrade_method cfg method0) rawURL
                                             (requestBody cfg) (hs1 @ h # hs2)))],
                    artifact_text (upgrade_method cfg method0) rawURL (hs1 @ h # hs2)
                      (requestBody cfg) (Proto resp) (Status resp) (response.Header resp) ks
                      responseBody)])"
    using task_files [of e "cfg\<lparr>headers := hs1 @ h # hs2\<rparr>" method0 rawURL ks]
  proof (elim disjE exE conjE)
    assume "files (snd (task e (cfg\<lparr>headers := hs1 @ h # hs2\<rparr>) method0 rawURL ks)) = []"
    then show ?thesis
      by (rule disjI1)
  next
    fix req :: request and resp :: response and responseBody :: string
    assume "files (snd (task e (cfg\<lparr>headers := hs1 @ h # hs2\<rparr>) method0 rawURL ks)) =
           [(artifact_path (outputDir (cfg\<lparr>headers := hs1 @ h # hs2\<rparr>)) (URL req)
               (upgrade_method (cfg\<lparr>headers := hs1 @ h # hs2\<rparr>) method0) rawURL
               (requestBody (cfg\<lparr>headers := hs1 @ h # hs2\<rparr>))
               (headers (cfg\<lparr>headers := hs1 @ h # hs2\<rparr>)),
             artifact_text (upgrade_method (cfg\<lparr>headers := hs1 @ h # hs2\<rparr>) method0) rawURL
               (headers (cfg\<lparr>headers := hs1 @ h # hs2\<rparr>))
               (requestBody (cfg\<lparr>headers := hs1 @ h # hs2\<rparr>))
               (Proto resp) (Status resp) (response.Header resp) ks responseBody)]"
    then have "files (snd (task e (cfg\<lparr>headers := hs1 @ h # hs2\<rparr>) method0 rawURL ks)) =
           [(path_Join [outputDir cfg, Hostname (URL req), normalisePath (URL req),
                      Sprintf_x (sha1_Sum (hash_input (upgrade_method cfg method0) rawURL
                                             (requestBody cfg) (hs1 @ h # hs2)))],
             artifact_text (upgrade_method cfg method0) rawURL (hs1 @ h # hs2) (requestBody cfg)
               (Proto resp) (Status resp) (response.Header resp) ks responseBody)]"
      by (simp add: upgrade_method_def artifact_path_def artifact_key_def)
    then show ?thesis
      by (intro disjI2 exI) assumption
  qed
  have saved: "requests (snd (task e (cfg\<lparr>headers := hs1 @ h # hs2\<rparr>) method0 rawURL ks)) =
                [add_headers e (hs1 @ hs2) req0]
              \<and> files (snd (task e (cfg\<lparr>headers := hs1 @ h # hs2\<rparr>) method0 rawURL ks)) =
                  [(path_Join [outputDir cfg, Hostname (URL req0), normalisePath (URL req0),
                      Sprintf_x (sha1_Sum (hash_input (upgrade_method cfg method0) rawURL
                                             (requestBody cfg) (hs1 @ h # hs2)))],
                    artifact_text (upgrade_method cfg method0) rawURL (hs1 @ h # hs2)
                      (requestBody cfg) (Proto resp0) (Status resp0) (response.Header resp0) ks
                      responseBody0)]"
    if hyp: "url_ParseRequestURI e rawURL = None
          \<and> http_NewRequest e (upgrade_method cfg method0) rawURL (body_reader cfg) = Inr req0
          \<and> client_Do e (add_headers e (hs1 @ hs2) req0) = Inr resp0
          \<and> response.Body resp0 = Inr responseBody0
          \<and> shouldSave (saveResponses cfg) (saveStatus cfg) (StatusCode resp0) responseBody0
               (ignoreHTMLFiles cfg) (ignoreEmpty cfg) (match cfg)
          \<and> os_MkdirAll e (path_Dir (artifact_path (outputDir cfg) (URL req0)
               (upgrade_method cfg method0) rawURL (requestBody cfg) (hs1 @ h # hs2))) = None
          \<and> (\<forall>c. ioutil_WriteFile e (artifact_path (outputDir cfg) (URL req0)
               (upgrade_method cfg method0) rawURL (requestBody cfg) (hs1 @ h # hs2)) c = None)"
  proof -
    let ?cfg = "cfg\<lparr>headers := hs1 @ h # hs2\<rparr>"
    have fields: "upgrade_method ?cfg method0 = upgrade_method cfg method0"
      "body_reader ?cfg = body_reader cfg" "headers ?cfg = hs1 @ h # hs2"
      "requestBody ?cfg = requestBody cfg" "outputDir ?cfg = outputDir cfg"
      "saveResponses ?cfg = saveResponses cfg" "saveStatus ?cfg = saveStatus cfg"
      "ignoreHTMLFiles ?cfg = ignoreHTMLFiles cfg" "ignoreEmpty ?cfg = ignoreEmpty cfg"
      "match ?cfg = match cfg"
      by (simp_all add: upgrade_method_def body_reader_def)
    from hyp have "requests (snd (task e ?cfg method0 rawURL ks)) =
                     [add_headers e (headers ?cfg) req0]"
      by (intro task_sent) (simp_all add: fields)
    then have one: "requests (snd (task e ?cfg method0 rawURL ks)) =
                      [add_headers e (hs1 @ hs2) req0]"
      by (simp only: fields skip)
    from hyp have "files (snd (task e ?cfg method0 rawURL ks)) =
           [(artifact_path (outputDir ?cfg) (URL req0) (upgrade_method ?cfg method0) rawURL
               (requestBody ?cfg) (headers ?cfg),
             artifact_text (upgrade_method ?cfg method0) rawURL (headers ?cfg) (requestBody ?cfg)
               (Proto resp0) (Status resp0) (response.Header resp0) ks responseBody0)]"
      by (intro task_persisted [where ?req0.0 = req0]) (simp_all add: fields skip)
    then have "files (snd (task e ?cfg method0 rawURL ks)) =
                  [(path_Join [outputDir cfg, Hostname (URL req0), normalisePath (URL req0),
                      Sprintf_x (sha1_Sum (hash_input (upgrade_method cfg method0) rawURL
                                             (requestBody cfg) (hs1 @ h # hs2)))],
                    artifact_text (upgrade_method cfg method0) rawURL (hs1 @ h # hs2)
                      (requestBody cfg) (Proto resp0) (Status resp0) (response.Header resp0) ks
                      responseBody0)]"
      by (simp only: fields artifact_path_def artifact_key_def)
    with one show ?thesis
      by (rule conjI)
  qed
  show ?thesis
    apply (intro conjI)
         apply (rule skip)
        apply (rule sent)
       apply (rule hashed)
      apply (rule line)
     apply (rule written)
    apply (rule impI)
    apply (rule saved)
    apply assumption
    done
qed

text \<open>
  The flags \<^verbatim>\<open>-H "X-Test: 1" -H nocolon\<close>: the request carries the first header
  only, the hash input and the artifact have both, and the task writes the file.
\<close>

theorem header_without_colon_witness:
  "CHR '':'' \<notin> set ''nocolon''
   \<and> map request.Header
        (requests (snd (task example_env (example_config\<lparr>headers := [''X-Test: 1''] @ ''nocolon'' # []\<rparr>)
                          ''GET'' ''http://example.com/'' []))) =
      [[''X-Test'' \<mapsto> ['' 1'']]]
   \<and> hash_input ''GET'' ''http://example.com/'' [] ([''X-Test: 1''] @ ''nocolon'' # []) =
      ''GEThttp://example.com/X-Test: 1, nocolon''
   \<and> files (snd (task example_env (example_config\<lparr>headers := [''X-Test: 1''] @ ''nocolon'' # []\<rparr>)
                     ''GET'' ''http://example.com/'' [''Server'', ''Set-Cookie''])) =
      [(path_Join [''out'', ''example.com'', ''/'',
                   Sprintf_x (sha1_Sum ''GEThttp://example.com/X-Test: 1, nocolon'')],
        ''GET http://example.com/'' @ [LF, LF] @ ''> X-Test: 1'' @ [LF] @ ''> nocolon'' @ [LF, LF]
          @ ''< HTTP/1.1 404 Not Found'' @ [LF] @ ''< Server: nginx'' @ [LF]
          @ ''< Set-Cookie: a=1'' @ [LF] @ ''< Set-Cookie: b=2'' @ [LF, CR, LF])]"
proof -
  let ?u = "''http://example.com/''"
  let ?req0 = "\<lparr>Method = ''GET'', URL = \<lparr>Path = ''/'', Hostname = ''example.com''\<rparr>,
                Header = Map.empty, Body = None\<rparr>"
  have nc: "CHR '':'' \<notin> set ''nocolon''"
    by simp
  note t = header_without_colon [OF nc, of example_env "[''X-Test: 1'']" "[]" _ example_config
      "''GET''" "''http://example.com/''" "[]" "''GET''" "[]"]
  have "requests (snd (task example_env (example_config\<lparr>headers := [''X-Test: 1''] @ ''nocolon'' # []\<rparr>)
                          ''GET'' ''http://example.com/'' [])) =
        requests (snd (task example_env (example_config\<lparr>headers := [''X-Test: 1''] @ []\<rparr>)
                          ''GET'' ''http://example.com/'' []))"
    by (rule t [THEN conjunct2, THEN conjunct1])
  then have sent: "map request.Header
        (requests (snd (task example_env (example_config\<lparr>headers := [''X-Test: 1''] @ ''nocolon'' # []\<rparr>)
                          ''GET'' ''http://example.com/'' []))) =
      [[''X-Test'' \<mapsto> ['' 1'']]]"
    by (simp add: task_requests example_env_def example_config_def upgrade_method_def
          body_reader_def strings_SplitN_colon_2_def Header_Set_def http_NewRequest_def
          validMethod_def isTokenByte_def)
  have hashed: "hash_input ''GET'' ''http://example.com/'' [] ([''X-Test: 1''] @ ''nocolon'' # []) =
      ''GEThttp://example.com/X-Test: 1, nocolon''"
    using t [THEN conjunct2, THEN conjunct2, THEN conjunct1]
    by (simp add: headerArgs_String_def)
  have cfg: "upgrade_method example_config ''GET'' = ''GET''" "body_reader example_config = None"
    "requestBody example_config = []" "outputDir example_config = ''out''"
    by (simp_all add: example_config_def upgrade_method_def body_reader_def)
  have new: "http_NewRequest example_env ''GET'' ?u None = Inr ?req0"
    using example_NewRequest [of "''GET''" ?u None] validMethod_examples(1) by simp
  have hyps: "url_ParseRequestURI example_env ?u = None
          \<and> http_NewRequest example_env (upgrade_method example_config ''GET'') ?u
               (body_reader example_config) = Inr ?req0
          \<and> client_Do example_env (add_headers example_env ([''X-Test: 1''] @ []) ?req0) =
               Inr example_response
          \<and> response.Body example_response = Inr []
          \<and> shouldSave (saveResponses example_config) (saveStatus example_config)
               (StatusCode example_response) [] (ignoreHTMLFiles example_config)
               (ignoreEmpty example_config) (match example_config)
          \<and> os_MkdirAll example_env (path_Dir (artifact_path (outputDir example_config) (URL ?req0)
               (upgrade_method example_config ''GET'') ?u (requestBody example_config)
               ([''X-Test: 1''] @ ''nocolon'' # []))) = None
          \<and> (\<forall>c. ioutil_WriteFile example_env (artifact_path (outputDir example_config) (URL ?req0)
               (upgrade_method example_config ''GET'') ?u (requestBody example_config)
               ([''X-Test: 1''] @ ''nocolon'' # [])) c = None)"
    unfolding cfg new
    by (simp add: example_env_def example_response_def example_config_def shouldSave_saveAll)
  note t' = header_without_colon [OF nc, where e = example_env and ?hs1.0 = "[''X-Test: 1'']"
      and ?hs2.0 = "[]" and cfg = example_config and ?method0.0 = "''GET''" and rawURL = ?u
      and ks = "[''Server'', ''Set-Cookie'']" and ?req0.0 = ?req0 and ?resp0.0 = example_response
      and ?responseBody0.0 = "[]"]
  have "files (snd (task example_env (example_config\<lparr>headers := [''X-Test: 1''] @ ''nocolon'' # []\<rparr>)
                     ''GET'' ?u [''Server'', ''Set-Cookie''])) =
          [(path_Join [outputDir example_config, Hostname (URL ?req0), normalisePath (URL ?req0),
              Sprintf_x (sha1_Sum (hash_input (upgrade_method example_config ''GET'') ?u
                                     (requestBody example_config)
                                     ([''X-Test: 1''] @ ''nocolon'' # [])))],
            artifact_text (upgrade_method example_config ''GET'') ?u
              ([''X-Test: 1''] @ ''nocolon'' # []) (requestBody example_config)
              (Proto example_response) (Status example_response)
              (response.Header example_response) [''Server'', ''Set-Cookie''] [])]"
    using t' [THEN conjunct2, THEN conjunct2, THEN conjunct2, THEN conjunct2, THEN conjunct2]
      hyps by blast
  then have wrote: "files (snd (task example_env
                     (example_config\<lparr>headers := [''X-Test: 1''] @ ''nocolon'' # []\<rparr>)
                     ''GET'' ?u [''Server'', ''Set-Cookie''])) =
      [(path_Join [''out'', ''example.com'', ''/'',
                   Sprintf_x (sha1_Sum ''GEThttp://example.com/X-Test: 1, nocolon'')],
        ''GET http://example.com/'' @ [LF, LF] @ ''> X-Test: 1'' @ [LF] @ ''> nocolon'' @ [LF, LF]
          @ ''< HTTP/1.1 404 Not Found'' @ [LF] @ ''< Server: nginx'' @ [LF]
          @ ''< Set-Cookie: a=1'' @ [LF] @ ''< Set-Cookie: b=2'' @ [LF, CR, LF])]"
    unfolding cfg
    by (simp add: example_response_def normalisePath_def in_class_def hash_input_def
          headerArgs_String_def artifact_text_closed_form header_block_def)
  from nc sent hashed wrote show ?thesis
    by (intro conjI)
qed

section \<open>The artifact content and the order of the response headers\<close>

text \<open>
  Claim C5, as the code has it. For the same request inputs and the same response,
  two serialisations differ at most in the order in which the loop over the response
  header map visits the names: the texts have the same beginning and the same end,
  and between them the same blocks of lines, one block for each name with the lines
  in the order of the name's values, in a permuted order. The texts are identical
  when the loops visit the names in the same order, and so when the response has at
  most one header name.
\<close>

theorem artifact_text_up_to_header_order:
  assumes "range_order hdr ks" and "range_order hdr ks'"
  shows "(\<exists>pre post.
           artifact_text method rawURL hs reqBody proto status_line hdr ks responseBody =
             pre @ concat (map (header_block hdr) ks) @ post
         \<and> artifact_text method rawURL hs reqBody proto status_line hdr ks' responseBody =
             pre @ concat (map (header_block hdr) ks') @ post
         \<and> mset (map (header_block hdr) ks) = mset (map (header_block hdr) ks'))
       \<and> (ks = ks' \<or> card (dom hdr) \<le> 1 \<longrightarrow>
            artifact_text method rawURL hs reqBody proto status_line hdr ks responseBody =
            artifact_text method rawURL hs reqBody proto status_line hdr ks' responseBody)"
proof -
  have "ks = ks'" if "card (dom hdr) \<le> 1"
    using range_order_single [OF assms that] .
  then show ?thesis
    using artifact_text_orders [OF assms] by blast
qed

text \<open>
  A response with the two names \<^verbatim>\<open>Server\<close> and \<^verbatim>\<open>Set-Cookie\<close> visited in either
  order, and a response with one name.
\<close>

theorem artifact_text_up_to_header_order_witness:
  "range_order [''Server'' \<mapsto> [''nginx''], ''Set-Cookie'' \<mapsto> [''a=1'', ''b=2'']]
     [''Server'', ''Set-Cookie'']
   \<and> range_order [''Server'' \<mapsto> [''nginx''], ''Set-Cookie'' \<mapsto> [''a=1'', ''b=2'']]
     [''Set-Cookie'', ''Server'']
   \<and> mset (map (header_block [''Server'' \<mapsto> [''nginx''], ''Set-Cookie'' \<mapsto> [''a=1'', ''b=2'']])
             [''Server'', ''Set-Cookie'']) =
       mset (map (header_block [''Server'' \<mapsto> [''nginx''], ''Set-Cookie'' \<mapsto> [''a=1'', ''b=2'']])
             [''Set-Cookie'', ''Server''])
   \<and> range_order [''Server'' \<mapsto> [''nginx'']] [''Server'']
   \<and> card (dom [''Server'' \<mapsto> [''nginx'']]) \<le> 1
   \<and> artifact_text ''GET'' ''http://example.com/'' [] [] ''HTTP/1.1'' ''200 OK''
         [''Server'' \<mapsto> [''nginx'']] [''Server''] ''ok'' =
       ''GET http://example.com/'' @ [LF, LF, LF] @ ''< HTTP/1.1 200 OK'' @ [LF]
         @ ''< Server: nginx'' @ [LF, CR, LF] @ ''ok''"
proof -
  let ?h2 = "[''Server'' \<mapsto> [''nginx''], ''Set-Cookie'' \<mapsto> [''a=1'', ''b=2'']]"
  let ?h1 = "[''Server'' \<mapsto> [''nginx'']]"
  have r1: "range_order ?h2 [''Server'', ''Set-Cookie'']"
    and r2: "range_order ?h2 [''Set-Cookie'', ''Server'']"
    and r3: "range_order ?h1 [''Server'']"
    by (auto simp: range_order_def)
  have c: "card (dom ?h1) \<le> 1"
    by simp
  from artifact_text_up_to_header_order [OF r1 r2]
  have m: "mset (map (header_block ?h2) [''Server'', ''Set-Cookie'']) =
           mset (map (header_block ?h2) [''Set-Cookie'', ''Server''])"
    by blast
  from artifact_text_up_to_header_order [OF r3 r3, of "''GET''" "''http://example.com/''" "[]" "[]"
      "''HTTP/1.1''" "''200 OK''" "''ok''"] c
  have "artifact_text ''GET'' ''http://example.com/'' [] [] ''HTTP/1.1'' ''200 OK''
         ?h1 [''Server''] ''ok'' =
       ''GET http://example.com/'' @ [LF, LF, LF] @ ''< HTTP/1.1 200 OK'' @ [LF]
         @ ''< Server: nginx'' @ [LF, CR, LF] @ ''ok''"
    by (simp add: artifact_text_def)
  with r1 r2 r3 c m show ?thesis
    by blast
qed

text \<open>
  The claim as stated fails: the same task, with the same environment, configuration
  and response, writes different bytes when its loop visits the two header names in
  the other order.
\<close>

theorem artifact_content_counterexample:
  "range_order (response.Header example_response) [''Server'', ''Set-Cookie'']
   \<and> range_order (response.Header example_response) [''Set-Cookie'', ''Server'']
   \<and> map snd (files (snd (task example_env example_config ''GET'' ''http://example.com/''
                             [''Server'', ''Set-Cookie''])))
     \<noteq> map snd (files (snd (task example_env example_config ''GET'' ''http://example.com/''
                               [''Set-Cookie'', ''Server''])))"
proof -
  have cfg: "example_config\<lparr>requestBody := [], headers := []\<rparr> = example_config"
    by (simp add: example_config_def)
  have url: "hasPrefix ''http://example.com/'' ''http://''"
    by simp
  have valid: "upgrade_method (example_config\<lparr>requestBody := []\<rparr>) ''GET'' = []
               \<or> validMethod (upgrade_method (example_config\<lparr>requestBody := []\<rparr>) ''GET'')"
    by (simp add: upgrade_method_def validMethod_examples)
  have "range_order (response.Header example_response) [''Server'', ''Set-Cookie'']"
    and "range_order (response.Header example_response) [''Set-Cookie'', ''Server'']"
    by (auto simp: range_order_def example_response_def)
  moreover have "map snd (files (snd (task example_env example_config ''GET'' ''http://example.com/''
                             [''Server'', ''Set-Cookie''])))
     \<noteq> map snd (files (snd (task example_env example_config ''GET'' ''http://example.com/''
                               [''Set-Cookie'', ''Server''])))"
    using example_task_files [OF url valid, where hs = "[]" and ks = "[''Server'', ''Set-Cookie'']"]
      example_task_files [OF url valid, where hs = "[]" and ks = "[''Set-Cookie'', ''Server'']"]
    unfolding cfg
    by (simp add: artifact_text_closed_form header_block_def)
  ultimately show ?thesis
    by blast
qed

section \<open>Scenario 2: the artifact path for \<^verbatim>\<open>http://example.com/\<close>\<close>

lemma path_Dir_example:
  assumes "component h"
  shows "path_Dir (''out/example.com/'' @ h) = ''out/example.com''"
proof -
  from assms have "\<forall>c\<in>set (rev h). c \<noteq> CHR ''/''"
    by (auto simp: component_def)
  then have "dropWhile (\<lambda>c. c \<noteq> CHR ''/'') (rev h @ rev ''out/example.com/'') =
             dropWhile (\<lambda>c. c \<noteq> CHR ''/'') (rev ''out/example.com/'')"
    by (intro dropWhile_append2) simp
  then have "rev (dropWhile (\<lambda>c. c \<noteq> CHR ''/'') (rev (''out/example.com/'' @ h))) =
             ''out/example.com/''"
    by simp
  then show ?thesis
    by (simp add: path_Dir_def path_Clean_def clean_loop.simps)
qed

lemma scenario2_files:
  assumes "url_ParseRequestURI e ''http://example.com/'' = None"
    and "http_NewRequest e ''GET'' ''http://example.com/'' None = Inr req"
    and "URL req = \<lparr>Path = ''/'', Hostname = ''example.com''\<rparr>"
    and "client_Do e req = Inr resp"
    and "response.Body resp = Inr responseBody"
    and "os_MkdirAll e ''out/example.com'' = None"
    and "\<forall>c. ioutil_WriteFile e
              (''out/example.com/'' @ Sprintf_x (sha1_Sum ''GEThttp://example.com/'')) c = None"
    and "saveResponses cfg" and "\<not> ignoreHTMLFiles cfg" and "\<not> ignoreEmpty cfg"
    and "requestBody cfg = []" and "headers cfg = []" and "outputDir cfg = ''out''"
  shows "map fst (files (snd (task e cfg ''GET'' ''http://example.com/'' ks))) =
           [''out/example.com/'' @ Sprintf_x (sha1_Sum ''GEThttp://example.com/'')]"
proof -
  let ?hex = "Sprintf_x (sha1_Sum ''GEThttp://example.com/'')"
  have k: "artifact_key ''GET'' ''http://example.com/'' [] [] = sha1_Sum ''GEThttp://example.com/''"
    by (simp add: artifact_key_def hash_input_def headerArgs_String_def)
  have comp: "component ?hex"
    using key_component [of "''GET''" "''http://example.com/''" "[]" "[]"] by (simp only: k)
  have np: "normalisePath \<lparr>Path = ''/'', Hostname = ''example.com''\<rparr> = ''/''"
    by (simp add: normalisePath_def in_class_def)
  have p: "artifact_path ''out'' \<lparr>Path = ''/'', Hostname = ''example.com''\<rparr> ''GET''
             ''http://example.com/'' [] [] = ''out/example.com/'' @ ?hex"
    unfolding artifact_path_def k np using path_Join_example(1) [OF comp] by simp
  have up: "upgrade_method cfg ''GET'' = ''GET''" and br: "body_reader cfg = None"
    using assms(11) by (simp_all add: upgrade_method_def body_reader_def)
  have save: "shouldSave (saveResponses cfg) (saveStatus cfg) (StatusCode resp) responseBody
           (ignoreHTMLFiles cfg) (ignoreEmpty cfg) (match cfg)"
    using assms(8-10) by (simp add: shouldSave_def shouldSave_ignore_def)
  have "files (snd (task e cfg ''GET'' ''http://example.com/'' ks)) =
          [(''out/example.com/'' @ ?hex,
            artifact_text (upgrade_method cfg ''GET'') ''http://example.com/'' (headers cfg)
              (requestBody cfg) (Proto resp) (Status resp) (response.Header resp) ks
              responseBody)]"
    using assms(1-7) save
    by (intro task_persisted [where ?req0.0 = req and resp = resp])
       (simp_all add: up br assms(11-13) p path_Dir_example [OF comp, simplified])
  then show ?thesis
    by simp
qed

text \<open>
  Claim C7, as the code has it. For the input line \<^verbatim>\<open>http://example.com/\<close>, whose
  URL has the host name \<^verbatim>\<open>example.com\<close> and the path \<^verbatim>\<open>/\<close>, with \<^verbatim>\<open>--save\<close> set, no
  request body, no header flag and the default output directory, the normalised path
  is \<^verbatim>\<open>/\<close> and the task writes one file, at \<^verbatim>\<open>out/example.com/\<close> followed by the
  hexadecimal key: \<^verbatim>\<open>path.Join\<close> cleans the joined path, so a single slash stands
  between the host name and the key.
\<close>

theorem scenario2_artifact_path:
  assumes "url_ParseRequestURI e ''http://example.com/'' = None"
    and "http_NewRequest e ''GET'' ''http://example.com/'' None = Inr req"
    and "URL req = \<lparr>Path = ''/'', Hostname = ''example.com''\<rparr>"
    and "client_Do e req = Inr resp"
    and "response.Body resp = Inr responseBody"
    and "os_MkdirAll e ''out/example.com'' = None"
    and "\<forall>c. ioutil_WriteFile e
              (''out/example.com/'' @ Sprintf_x (sha1_Sum ''GEThttp://example.com/'')) c = None"
    and "saveResponses cfg" and "\<not> ignoreHTMLFiles cfg" and "\<not> ignoreEmpty cfg"
    and "requestBody cfg = []" and "headers cfg = []" and "outputDir cfg = ''out''"
  shows "normalisePath (URL req) = ''/''
       \<and> map fst (files (snd (task e cfg ''GET'' ''http://example.com/'' ks))) =
           [''out/example.com/'' @ Sprintf_x (sha1_Sum ''GEThttp://example.com/'')]"
proof -
  have "normalisePath (URL req) = ''/''"
    by (simp add: assms(3) normalisePath_def in_class_def)
  with scenario2_files [OF assms] show ?thesis
    by simp
qed

definition example_request :: request where
  "example_request =
     \<lparr>Method = ''GET'', URL = \<lparr>Path = ''/'', Hostname = ''example.com''\<rparr>,
      Header = Map.empty, Body = None\<rparr>"

lemma example_scenario2:
  "url_ParseRequestURI example_env ''http://example.com/'' = None
   \<and> http_NewRequest example_env ''GET'' ''http://example.com/'' None = Inr example_request
   \<and> URL example_request = \<lparr>Path = ''/'', Hostname = ''example.com''\<rparr>
   \<and> client_Do example_env example_request = Inr example_response
   \<and> response.Body example_response = Inr []
   \<and> os_MkdirAll example_env ''out/example.com'' = None
   \<and> (\<forall>c. ioutil_WriteFile example_env
              (''out/example.com/'' @ Sprintf_x (sha1_Sum ''GEThttp://example.com/'')) c = None)
   \<and> saveResponses example_config \<and> \<not> ignoreHTMLFiles example_config
   \<and> \<not> ignoreEmpty example_config \<and> requestBody example_config = []
   \<and> headers example_config = [] \<and> outputDir example_config = ''out''"
  by (simp add: example_env_def example_request_def example_response_def example_config_def
        http_NewRequest_def validMethod_def isTokenByte_def)

text \<open>The example environment and configuration are an instance of the scenario.\<close>

theorem scenario2_artifact_path_witness:
  "url_ParseRequestURI example_env ''http://example.com/'' = None
   \<and> http_NewRequest example_env ''GET'' ''http://example.com/'' None = Inr example_request
   \<and> URL example_request = \<lparr>Path = ''/'', Hostname = ''example.com''\<rparr>
   \<and> client_Do example_env example_request = Inr example_response
   \<and> response.Body example_response = Inr []
   \<and> os_MkdirAll example_env ''out/example.com'' = None
   \<and> (\<forall>c. ioutil_WriteFile example_env
              (''out/example.com/'' @ Sprintf_x (sha1_Sum ''GEThttp://example.com/'')) c = None)
   \<and> saveResponses example_config \<and> \<not> ignoreHTMLFiles example_config
   \<and> \<not> ignoreEmpty example_config \<and> requestBody example_config = []
   \<and> headers example_config = [] \<and> outputDir example_config = ''out''
   \<and> normalisePath (URL example_request) = ''/''
   \<and> map fst (files (snd (task example_env example_config ''GET'' ''http://example.com/'' []))) =
       [''out/example.com/'' @ Sprintf_x (sha1_Sum ''GEThttp://example.com/'')]"
proof -
  note ex = example_scenario2
  have "normalisePath (URL example_request) = ''/''
       \<and> map fst (files (snd (task example_env example_config ''GET'' ''http://example.com/'' []))) =
           [''out/example.com/'' @ Sprintf_x (sha1_Sum ''GEThttp://example.com/'')]"
    by (rule scenario2_artifact_path [where resp = example_response and responseBody = "[]"])
       (insert ex, simp_all)
  with ex show ?thesis
    by simp
qed

text \<open>
  The claim as stated fails: the path of the file that the task writes in the
  scenario is not \<^verbatim>\<open>out/example.com//\<close> followed by the key.
\<close>

theorem scenario2_double_slash_counterexample:
  "map fst (files (snd (task example_env example_config ''GET'' ''http://example.com/'' [])))
     \<noteq> [''out/example.com//'' @ Sprintf_x (sha1_Sum ''GEThttp://example.com/'')]"
proof -
  note ex = example_scenario2
  have "map fst (files (snd (task example_env example_config ''GET'' ''http://example.com/'' []))) =
           [''out/example.com/'' @ Sprintf_x (sha1_Sum ''GEThttp://example.com/'')]"
    by (rule scenario2_files [where resp = example_response and responseBody = "[]"
          and req = example_request])
       (insert ex, simp_all)
  then show ?thesis
    by simp
qed

end
